theory Spec2Isabelle
  imports Main "HOL-Library.Word"
begin

section \<open>JavaScript values, as far as the pagination engine looks at them\<close>

text \<open>
  A string is the sequence of its UTF-16 code units, so that \<open>length\<close> is the JavaScript
  \<open>length\<close> and a surrogate may stand alone. \<open>ascii\<close> embeds a literal, one code unit per
  character.
\<close>

type_synonym jsstring = "16 word list"

definition ascii :: "string \<Rightarrow> jsstring" where
  "ascii s = map (\<lambda>c. word_of_nat (of_char c)) s"

text \<open>
  The values are the JSON values and \<open>undefined\<close>: what a page holds and what a callback
  is given and resolves to. A number is an integer from \<open>- 2 ^ 53\<close> to \<open>2 ^ 53 - 1\<close>, read
  from the word as a signed value; fractions are not part of the model. An object is a
  plain object (its prototype is \<open>Object.prototype\<close>), given by the list of its own
  properties, the first binding of a key being the property.
\<close>

datatype jsval =
    JUndefined
  | JNull
  | JBool bool
  | JNum "54 word"
  | JStr jsstring
  | JArr "jsval list"
  | JObj "(jsstring \<times> jsval) list"

text \<open>What the page fetcher resolves to: \<open>undefined\<close>, \<open>null\<close> or a plain object with its own
  properties.\<close>

datatype envelope =
    EUndefined
  | ENull
  | EObject "(jsstring \<times> jsval) list"

text \<open>
  A property read on a plain object follows the prototype chain, so a key that is not an
  own property may still name one of the twelve members of \<open>Object.prototype\<close>: eleven
  functions and the accessor \<open>__proto__\<close>, which gives \<open>Object.prototype\<close> itself. They are
  values of their own kind here; what the engine can ask of them is their \<open>length\<close> and
  their string, as V8 prints native functions.
\<close>

datatype object_member =
    OP_constructor
  | OP_defineGetter
  | OP_defineSetter
  | OP_hasOwnProperty
  | OP_lookupGetter
  | OP_lookupSetter
  | OP_isPrototypeOf
  | OP_propertyIsEnumerable
  | OP_toString
  | OP_valueOf
  | OP_proto
  | OP_toLocaleString

definition Object_prototype :: "(jsstring \<times> object_member) list" where
  "Object_prototype =
     [(ascii ''constructor'', OP_constructor),
      (ascii ''__defineGetter__'', OP_defineGetter),
      (ascii ''__defineSetter__'', OP_defineSetter),
      (ascii ''hasOwnProperty'', OP_hasOwnProperty),
      (ascii ''__lookupGetter__'', OP_lookupGetter),
      (ascii ''__lookupSetter__'', OP_lookupSetter),
      (ascii ''isPrototypeOf'', OP_isPrototypeOf),
      (ascii ''propertyIsEnumerable'', OP_propertyIsEnumerable),
      (ascii ''toString'', OP_toString),
      (ascii ''valueOf'', OP_valueOf),
      (ascii ''__proto__'', OP_proto),
      (ascii ''toLocaleString'', OP_toLocaleString)]"

text \<open>The \<open>name\<close> and the \<open>length\<close> of the functions; \<open>constructor\<close> is the function
  \<open>Object\<close>.\<close>

fun member_function :: "object_member \<Rightarrow> (string \<times> nat) option" where
  "member_function OP_constructor = Some (''Object'', 1)"
| "member_function OP_defineGetter = Some (''__defineGetter__'', 2)"
| "member_function OP_defineSetter = Some (''__defineSetter__'', 2)"
| "member_function OP_hasOwnProperty = Some (''hasOwnProperty'', 1)"
| "member_function OP_lookupGetter = Some (''__lookupGetter__'', 1)"
| "member_function OP_lookupSetter = Some (''__lookupSetter__'', 1)"
| "member_function OP_isPrototypeOf = Some (''isPrototypeOf'', 1)"
| "member_function OP_propertyIsEnumerable = Some (''propertyIsEnumerable'', 1)"
| "member_function OP_toString = Some (''toString'', 0)"
| "member_function OP_valueOf = Some (''valueOf'', 0)"
| "member_function OP_proto = None"
| "member_function OP_toLocaleString = Some (''toLocaleString'', 0)"

text \<open>The result of a property read on an envelope: a value, or an inherited member.\<close>

datatype property = Plain jsval | Inherited object_member

text \<open>What a rejected promise or a \<open>throw\<close> carries: a \<open>TypeError\<close> or a \<open>URIError\<close> raised
  by the language itself, or any value thrown by a collaborator.\<close>

datatype jserror = TypeError | URIError | Thrown jsval

text \<open>A function returning a promise: it acts on the outside world \<open>'w\<close> and settles
  with an error or a value.\<close>

type_synonym ('w, 'a) async = "'w \<Rightarrow> (jserror + 'a) \<times> 'w"

definition Promise_resolve :: "'a \<Rightarrow> ('w, 'a) async" where
  "Promise_resolve x w = (Inr x, w)"

text \<open>ToBoolean, on a value and on the result of a read; functions and objects are truthy.\<close>

fun truthy :: "jsval \<Rightarrow> bool" where
  "truthy JUndefined = False"
| "truthy JNull = False"
| "truthy (JBool b) = b"
| "truthy (JNum n) = (n \<noteq> 0)"
| "truthy (JStr s) = (s \<noteq> [])"
| "truthy (JArr xs) = True"
| "truthy (JObj kvs) = True"

fun ToBoolean :: "property \<Rightarrow> bool" where
  "ToBoolean (Plain v) = truthy v"
| "ToBoolean (Inherited m) = True"

definition digit_char :: "nat \<Rightarrow> char" where
  "digit_char d = char_of (48 + d)"

fun nat_to_string :: "nat \<Rightarrow> string" where
  "nat_to_string n =
     (if n < 10 then [digit_char n]
      else nat_to_string (n div 10) @ [digit_char (n mod 10)])"

declare nat_to_string.simps [simp del]

definition int_to_string :: "int \<Rightarrow> string" where
  "int_to_string n = (if n < 0 then ''-'' @ nat_to_string (nat (- n)) else nat_to_string (nat n))"

text \<open>
  ToString. An integer of this range is printed with all its digits. An array is joined
  with commas, \<open>undefined\<close> and \<open>null\<close> elements giving the empty string. A plain object goes
  through the \<open>toString\<close> it finds: the inherited one gives \<open>[object Object]\<close>; an own property
  of that name holds a value, which cannot be called, and then \<open>valueOf\<close> (own: not callable,
  inherited: gives back the object) does not lead to a primitive either, which is a
  \<open>TypeError\<close>.
\<close>

fun js_to_string :: "jsval \<Rightarrow> jserror + jsstring"
  and js_join :: "jsval list \<Rightarrow> jserror + jsstring"
where
  "js_to_string JUndefined = Inr (ascii ''undefined'')"
| "js_to_string JNull = Inr (ascii ''null'')"
| "js_to_string (JBool b) = Inr (ascii (if b then ''true'' else ''false''))"
| "js_to_string (JNum n) = Inr (ascii (int_to_string (sint n)))"
| "js_to_string (JStr s) = Inr s"
| "js_to_string (JArr xs) = js_join xs"
| "js_to_string (JObj kvs) =
     (if map_of kvs (ascii ''toString'') = None then Inr (ascii ''[object Object]'')
      else Inl TypeError)"
| "js_join [] = Inr []"
| "js_join (x # xs) =
     (case (if x = JUndefined \<or> x = JNull then Inr [] else js_to_string x) of
        Inl e \<Rightarrow> Inl e
      | Inr s \<Rightarrow>
          if xs = [] then Inr s
          else (case js_join xs of
                  Inl e \<Rightarrow> Inl e
                | Inr t \<Rightarrow> Inr (s @ ascii '','' @ t)))"

fun ToString :: "property \<Rightarrow> jserror + jsstring" where
  "ToString (Plain v) = js_to_string v"
| "ToString (Inherited m) =
     (case member_function m of
        None \<Rightarrow> Inr (ascii ''[object Object]'')
      | Some (name, arity) \<Rightarrow> Inr (ascii (''function '' @ name @ ''() { [native code] }'')))"

text \<open>The number of a length. A JavaScript array or string has fewer than \<open>2 ^ 32\<close>
  elements; the bound here keeps the number of any list in range.\<close>

definition js_number :: "nat \<Rightarrow> jsval" where
  "js_number n = JNum (word_of_nat (min n 9007199254740991))"

text \<open>The property read \<open>result[field]\<close> on an envelope: a \<open>TypeError\<close> on \<open>undefined\<close> and
  \<open>null\<close>, the own property, else the inherited member, else \<open>undefined\<close>.\<close>

fun js_get :: "envelope \<Rightarrow> jsstring \<Rightarrow> jserror + property" where
  "js_get EUndefined field = Inl TypeError"
| "js_get ENull field = Inl TypeError"
| "js_get (EObject kvs) field =
     (case map_of kvs field of
        Some v \<Rightarrow> Inr (Plain v)
      | None \<Rightarrow>
          (case map_of Object_prototype field of
             Some m \<Rightarrow> Inr (Inherited m)
           | None \<Rightarrow> Inr (Plain JUndefined)))"

text \<open>The property read \<open>data.length\<close>. Arrays, strings and functions have a \<open>length\<close> of
  their own; no prototype of the other values has one.\<close>

fun js_length :: "property \<Rightarrow> jserror + jsval" where
  "js_length (Plain JUndefined) = Inl TypeError"
| "js_length (Plain JNull) = Inl TypeError"
| "js_length (Plain (JBool b)) = Inr JUndefined"
| "js_length (Plain (JNum n)) = Inr JUndefined"
| "js_length (Plain (JStr s)) = Inr (js_number (length s))"
| "js_length (Plain (JArr xs)) = Inr (js_number (length xs))"
| "js_length (Plain (JObj kvs)) =
     (case map_of kvs (ascii ''length'') of None \<Rightarrow> Inr JUndefined | Some v \<Rightarrow> Inr v)"
| "js_length (Inherited m) =
     (case member_function m of
        None \<Rightarrow> Inr JUndefined
      | Some (name, arity) \<Rightarrow> Inr (js_number arity))"

text \<open>A string is read code point by code point: a leading surrogate followed by a
  trailing one is one code point, any other code unit stands for itself.\<close>

definition is_leading :: "16 word \<Rightarrow> bool" where
  "is_leading u = (0xD800 \<le> unat u \<and> unat u \<le> 0xDBFF)"

definition is_trailing :: "16 word \<Rightarrow> bool" where
  "is_trailing u = (0xDC00 \<le> unat u \<and> unat u \<le> 0xDFFF)"

fun code_points :: "jsstring \<Rightarrow> jsstring list" where
  "code_points [] = []"
| "code_points [u] = [u] # []"
| "code_points (u # v # s) =
     (if is_leading u \<and> is_trailing v then [u, v] # code_points s
      else [u] # code_points (v # s))"

text \<open>The elements a \<open>for (const element of v)\<close> loop visits: those of an array, the code
  points of a string; nothing else here is iterable.\<close>

fun js_iterate :: "property \<Rightarrow> jserror + jsval list" where
  "js_iterate (Plain (JArr xs)) = Inr xs"
| "js_iterate (Plain (JStr s)) = Inr (map JStr (code_points s))"
| "js_iterate v = Inl TypeError"


section \<open>The paginated iterator\<close>

record PaginatedIteratorConfig =
  nextField :: jsstring
  dataField :: jsstring

record PaginatedIterableConfig = PaginatedIteratorConfig +
  queryParameter :: jsstring

text \<open>\<open>class PaginatedIterable\<close>: the page fetcher and the configuration.\<close>

record 'w PaginatedIterable =
  nextPage :: "property \<Rightarrow> ('w, envelope) async"
  config :: PaginatedIterableConfig

text \<open>\<open>class PaginatedIterator\<close>: the same two, and the cursor \<open>nextQuery\<close>, the only
  field that is ever assigned.\<close>

record 'w PaginatedIterator =
  nextQuery :: property
  it_nextPage :: "property \<Rightarrow> ('w, envelope) async"
  it_config :: PaginatedIteratorConfig

record IteratorResult =
  ir_value :: property
  ir_done :: bool

text \<open>\<open>[Symbol.asyncIterator]()\<close>: a new iterator, its cursor \<open>undefined\<close>.\<close>

definition asyncIterator :: "'w PaginatedIterable \<Rightarrow> 'w PaginatedIterator" where
  "asyncIterator this =
     \<lparr>nextQuery = Plain JUndefined,
      it_nextPage = nextPage this,
      it_config = PaginatedIteratorConfig.truncate (config this)\<rparr>"

text \<open>\<open>PaginatedIterator.next()\<close>. The iterator is returned as the call leaves it: the
  cursor is assigned before the data field is read.\<close>

definition PaginatedIterator_next ::
  "'w PaginatedIterator \<Rightarrow> 'w \<Rightarrow> (jserror + IteratorResult) \<times> 'w PaginatedIterator \<times> 'w"
where
  "PaginatedIterator_next this w =
     (case it_nextPage this (nextQuery this) w of
        (Inl e, w') \<Rightarrow> (Inl e, this, w')
      | (Inr result, w') \<Rightarrow>
          (case js_get result (nextField (it_config this)) of
             Inl e \<Rightarrow> (Inl e, this, w')
           | Inr nq \<Rightarrow>
               (let this' = this\<lparr>nextQuery := nq\<rparr> in
                case js_get result (dataField (it_config this')) of
                  Inl e \<Rightarrow> (Inl e, this', w')
                | Inr data \<Rightarrow>
                    (case js_length data of
                       Inl e \<Rightarrow> (Inl e, this', w')
                     | Inr len \<Rightarrow>
                         (Inr \<lparr>ir_value = data, ir_done = (len = JNum 0)\<rparr>, this', w')))))"


section \<open>Consuming the pages\<close>

text \<open>How the body of a loop completes: it falls through to the next round with the
  loop's variables, or it executes \<open>return\<close>.\<close>

datatype ('r, 's) completion = Normal 's | Returned 'r

text \<open>\<open>for await (const page of this) { body }\<close> over an iterator: one \<open>next()\<close> per
  round, the loop ends when \<open>done\<close> is reported (the value of that result is not looked
  at), and an error or a \<open>return\<close> in the body leaves the loop at once; the iterator has no
  \<open>return\<close> method to be called then. The loop need not end, so the result is optional.\<close>

partial_function (option) for_await ::
  "(property \<Rightarrow> 's \<Rightarrow> ('w, ('r, 's) completion) async) \<Rightarrow> 'w PaginatedIterator \<Rightarrow> 's \<Rightarrow> 'w
     \<Rightarrow> ((jserror + ('r, 's) completion) \<times> 'w) option"
where
  "for_await body it s w =
     (case PaginatedIterator_next it w of
        (Inl e, it', w') \<Rightarrow> Some (Inl e, w')
      | (Inr r, it', w') \<Rightarrow>
          if ir_done r then Some (Inr (Normal s), w')
          else (case body (ir_value r) s w' of
                  (Inl e, w'') \<Rightarrow> Some (Inl e, w'')
                | (Inr (Returned x), w'') \<Rightarrow> Some (Inr (Returned x), w'')
                | (Inr (Normal s'), w'') \<Rightarrow> for_await body it' s' w''))"

declare for_await.simps [code]

text \<open>The inner loop of \<open>findFirstAsync\<close> over the elements of one page.\<close>

fun findFirstAsync_page ::
  "(jsval \<Rightarrow> ('w, bool) async) \<Rightarrow> jsval list \<Rightarrow> ('w, (jsval, unit) completion) async"
where
  "findFirstAsync_page predicate [] w = (Inr (Normal ()), w)"
| "findFirstAsync_page predicate (element # rest) w =
     (case predicate element w of
        (Inl e, w') \<Rightarrow> (Inl e, w')
      | (Inr b, w') \<Rightarrow>
          if b then (Inr (Returned element), w')
          else findFirstAsync_page predicate rest w')"

text \<open>The body of the outer loop of \<open>findFirstAsync\<close>: \<open>for (const element of page)\<close>
  asks the page for its elements first.\<close>

definition findFirstAsync_body ::
  "(jsval \<Rightarrow> ('w, bool) async) \<Rightarrow> property \<Rightarrow> unit \<Rightarrow> ('w, (jsval, unit) completion) async"
where
  "findFirstAsync_body predicate page u w =
     (case js_iterate page of
        Inl e \<Rightarrow> (Inl e, w)
      | Inr elements \<Rightarrow> findFirstAsync_page predicate elements w)"

text \<open>\<open>findFirstAsync\<close>: falling off the end of the function returns \<open>undefined\<close>.\<close>

definition findFirstAsync ::
  "'w PaginatedIterable \<Rightarrow> (jsval \<Rightarrow> ('w, bool) async) \<Rightarrow> 'w \<Rightarrow> ((jserror + jsval) \<times> 'w) option"
where
  "findFirstAsync this predicate w =
     (case for_await (findFirstAsync_body predicate) (asyncIterator this) () w of
        None \<Rightarrow> None
      | Some (Inl e, w') \<Rightarrow> Some (Inl e, w')
      | Some (Inr (Returned element), w') \<Rightarrow> Some (Inr element, w')
      | Some (Inr (Normal u), w') \<Rightarrow> Some (Inr JUndefined, w'))"

text \<open>\<open>findFirst\<close>: the predicate is synchronous and may throw, which rejects the promise
  of the wrapping arrow function's caller.\<close>

definition findFirst ::
  "'w PaginatedIterable \<Rightarrow> (jsval \<Rightarrow> jserror + bool) \<Rightarrow> 'w \<Rightarrow> ((jserror + jsval) \<times> 'w) option"
where
  "findFirst this predicate w =
     findFirstAsync this
       (\<lambda>it w1. case predicate it of Inl e \<Rightarrow> (Inl e, w1) | Inr b \<Rightarrow> Promise_resolve b w1) w"

text \<open>\<open>limit && result.length >= limit\<close>, the limit being absent or an integer: a number is
  falsy when it is \<open>0\<close>.\<close>

definition limit_reached :: "int option \<Rightarrow> jsval list \<Rightarrow> bool" where
  "limit_reached limit result =
     (case limit of
        None \<Rightarrow> False
      | Some l \<Rightarrow> l \<noteq> 0 \<and> int (length result) \<ge> l)"

text \<open>The inner loop of \<open>flatMapNotNull\<close> over the elements of one page; \<open>result\<close> is the
  array the method pushes to.\<close>

fun flatMapNotNull_page ::
  "(jsval \<Rightarrow> ('w, jsval) async) \<Rightarrow> int option \<Rightarrow> jsval list \<Rightarrow> jsval list
     \<Rightarrow> ('w, (jsval list, jsval list) completion) async"
where
  "flatMapNotNull_page mapper limit [] result w = (Inr (Normal result), w)"
| "flatMapNotNull_page mapper limit (element # rest) result w =
     (case mapper element w of
        (Inl e, w') \<Rightarrow> (Inl e, w')
      | (Inr mapped, w') \<Rightarrow>
          (let result' = (if truthy mapped then result @ [mapped] else result) in
           if limit_reached limit result' then (Inr (Returned result'), w')
           else flatMapNotNull_page mapper limit rest result' w'))"

definition flatMapNotNull_body ::
  "(jsval \<Rightarrow> ('w, jsval) async) \<Rightarrow> int option \<Rightarrow> property \<Rightarrow> jsval list
     \<Rightarrow> ('w, (jsval list, jsval list) completion) async"
where
  "flatMapNotNull_body mapper limit page result w =
     (case js_iterate page of
        Inl e \<Rightarrow> (Inl e, w)
      | Inr elements \<Rightarrow> flatMapNotNull_page mapper limit elements result w)"

text \<open>\<open>flatMapNotNull\<close>: \<open>result\<close> starts empty and is returned by the \<open>return\<close> in the
  loop or by the one after it.\<close>

definition flatMapNotNull ::
  "'w PaginatedIterable \<Rightarrow> (jsval \<Rightarrow> ('w, jsval) async) \<Rightarrow> int option \<Rightarrow> 'w
     \<Rightarrow> ((jserror + jsval list) \<times> 'w) option"
where
  "flatMapNotNull this mapper limit w =
     (case for_await (flatMapNotNull_body mapper limit) (asyncIterator this) [] w of
        None \<Rightarrow> None
      | Some (Inl e, w') \<Rightarrow> Some (Inl e, w')
      | Some (Inr (Returned result), w') \<Rightarrow> Some (Inr result, w')
      | Some (Inr (Normal result), w') \<Rightarrow> Some (Inr result, w'))"

text \<open>\<open>all\<close>: the mapper is \<open>it => Promise.resolve(it)\<close>, the limit is not passed.\<close>

definition all_pages :: "'w PaginatedIterable \<Rightarrow> 'w \<Rightarrow> ((jserror + jsval list) \<times> 'w) option" where
  "all_pages this w = flatMapNotNull this (\<lambda>it. Promise_resolve it) None w"


section \<open>Building the page fetcher from an HTTP client\<close>

text \<open>
  \<open>encodeURIComponent\<close> reads the string code point by code point and throws a \<open>URIError\<close>
  on a surrogate that stands alone. It leaves the letters \<open>A-Z\<close> and \<open>a-z\<close>, the digits and
  \<open>- _ . ! ~ * ' ( )\<close> as they are (\<open>unreserved\<close>, by code point) and writes every other code
  point as the bytes of its UTF-8 encoding, each as \<open>%\<close> and two upper-case hexadecimal
  digits.
\<close>

definition code_point_of :: "jsstring \<Rightarrow> nat option" where
  "code_point_of c =
     (case c of
        [u] \<Rightarrow> if is_leading u \<or> is_trailing u then None else Some (unat u)
      | [u, v] \<Rightarrow> Some (0x10000 + (unat u - 0xD800) * 0x400 + (unat v - 0xDC00))
      | _ \<Rightarrow> None)"

definition unreserved :: "nat \<Rightarrow> bool" where
  "unreserved cp =
     ((0x41 \<le> cp \<and> cp \<le> 0x5A) \<or> (0x61 \<le> cp \<and> cp \<le> 0x7A) \<or> (0x30 \<le> cp \<and> cp \<le> 0x39)
      \<or> cp \<in> {0x2D, 0x5F, 0x2E, 0x21, 0x7E, 0x2A, 0x27, 0x28, 0x29})"

definition hex_digit :: "nat \<Rightarrow> char" where
  "hex_digit d = ''0123456789ABCDEF'' ! (d mod 16)"

definition percent_byte :: "nat \<Rightarrow> string" where
  "percent_byte b = [CHR ''%'', hex_digit (b div 16), hex_digit (b mod 16)]"

definition utf8 :: "nat \<Rightarrow> nat list" where
  "utf8 cp =
     (if cp < 0x80 then [cp]
      else if cp < 0x800 then [0xC0 + cp div 0x40, 0x80 + cp mod 0x40]
      else if cp < 0x10000 then
        [0xE0 + cp div 0x1000, 0x80 + cp div 0x40 mod 0x40, 0x80 + cp mod 0x40]
      else
        [0xF0 + cp div 0x40000, 0x80 + cp div 0x1000 mod 0x40,
         0x80 + cp div 0x40 mod 0x40, 0x80 + cp mod 0x40])"

definition encode_code_point :: "nat \<Rightarrow> string" where
  "encode_code_point cp =
     (if unreserved cp then [char_of cp] else concat (map percent_byte (utf8 cp)))"

fun encode_all :: "jsstring list \<Rightarrow> jserror + string" where
  "encode_all [] = Inr []"
| "encode_all (c # cs) =
     (case code_point_of c of
        None \<Rightarrow> Inl URIError
      | Some cp \<Rightarrow>
          (case encode_all cs of
             Inl e \<Rightarrow> Inl e
           | Inr t \<Rightarrow> Inr (encode_code_point cp @ t)))"

definition encodeURIComponent :: "jsstring \<Rightarrow> jserror + jsstring" where
  "encodeURIComponent s =
     (case encode_all (code_points s) of Inl e \<Rightarrow> Inl e | Inr t \<Rightarrow> Inr (ascii t))"

text \<open>A surrogate stands alone when it is a leading one that no trailing one follows, or a
  trailing one that no leading one precedes: the strings \<open>encodeURIComponent\<close> refuses.\<close>

fun lone_surrogate :: "jsstring \<Rightarrow> bool" where
  "lone_surrogate [] = False"
| "lone_surrogate [u] = (is_leading u \<or> is_trailing u)"
| "lone_surrogate (u # v # s) =
     (if is_leading u then \<not> is_trailing v \<or> lone_surrogate s
      else is_trailing u \<or> lone_surrogate (v # s))"

text \<open>
  \<open>fromUsing\<close>. The client \<open>http\<close> stands for \<open>http.getJson\<close> followed by \<open>.body\<close>: it is given
  the path and settles with the body of the response. The parameter name is encoded when
  the iterable is built, and a \<open>URIError\<close> there is thrown by \<open>fromUsing\<close> itself. In the arrow
  function the cursor is turned into a string (for the debug message, and again by
  \<open>encodeURIComponent\<close>) and encoded before the request is made; after the request the debug
  message reads \<open>result.body.data\<close>, which throws on a body that is \<open>undefined\<close> or \<open>null\<close>. The
  logger itself has no part in the result.
\<close>

text \<open>\<open>String.prototype.includes\<close>: the needle occurs somewhere in the string.\<close>

fun js_includes :: "jsstring \<Rightarrow> jsstring \<Rightarrow> bool" where
  "js_includes [] needle = (needle = [])"
| "js_includes (u # s) needle = (take (length needle) (u # s) = needle \<or> js_includes s needle)"

definition fromUsing ::
  "(jsstring \<Rightarrow> ('w, envelope) async) \<Rightarrow> jsstring \<Rightarrow> PaginatedIterableConfig
     \<Rightarrow> jserror + 'w PaginatedIterable"
where
  "fromUsing http basePath conf =
     (let hasQuery = js_includes basePath (ascii ''?'') in
      case encodeURIComponent (queryParameter conf) of
        Inl e \<Rightarrow> Inl e
      | Inr encodedQueryParameter \<Rightarrow>
          Inr \<lparr>nextPage =
                (\<lambda>next w.
                   case ToString next of
                     Inl e \<Rightarrow> (Inl e, w)
                   | Inr shown \<Rightarrow>
                       (case (if ToBoolean next then
                                (case encodeURIComponent shown of
                                   Inl e \<Rightarrow> Inl e
                                 | Inr encodedNext \<Rightarrow>
                                     if hasQuery
                                     then Inr (basePath @ ascii ''&'' @ encodedQueryParameter
                                                 @ ascii ''='' @ encodedNext)
                                     else Inr (basePath @ ascii ''?'' @ encodedQueryParameter
                                                 @ ascii ''='' @ encodedNext))
                              else Inr basePath) of
                          Inl e \<Rightarrow> (Inl e, w)
                        | Inr path \<Rightarrow>
                            (case http path w of
                               (Inl e, w') \<Rightarrow> (Inl e, w')
                             | (Inr body, w') \<Rightarrow>
                                 (case js_get body (ascii ''data'') of
                                    Inl e \<Rightarrow> (Inl e, w')
                                  | Inr d \<Rightarrow> (Inr body, w'))))),
               config = conf\<rparr>)"

definition fromGetUsingNext ::
  "(jsstring \<Rightarrow> ('w, envelope) async) \<Rightarrow> jsstring \<Rightarrow> jserror + 'w PaginatedIterable"
where
  "fromGetUsingNext http basePath =
     fromUsing http basePath
       \<lparr>nextField = ascii ''next'', dataField = ascii ''data'', queryParameter = ascii ''next''\<rparr>"

definition fromGetUsingSkip ::
  "(jsstring \<Rightarrow> ('w, envelope) async) \<Rightarrow> jsstring \<Rightarrow> jserror + 'w PaginatedIterable"
where
  "fromGetUsingSkip http basePath =
     fromUsing http basePath
       \<lparr>nextField = ascii ''next'', dataField = ascii ''data'', queryParameter = ascii ''$skip''\<rparr>"


section \<open>Observing a run\<close>

text \<open>The calls a collaborator receives are observed by wrapping it: the wrapped function
  does what the original does and appends its argument to a log kept beside the world.\<close>

definition logged :: "('a \<Rightarrow> ('w, 'b) async) \<Rightarrow> 'a \<Rightarrow> ('w \<times> 'a list, 'b) async" where
  "logged f a = (\<lambda>(w, calls). case f a w of (r, w') \<Rightarrow> (r, (w', calls @ [a])))"

text \<open>A page fetcher stub: it answers its calls with the given responses in turn, whatever
  the cursor, and rejects once they are used up. Its world is the number of calls made.\<close>

definition stub :: "(jserror + envelope) list \<Rightarrow> property \<Rightarrow> (nat, envelope) async" where
  "stub responses next n =
     (if n < length responses then responses ! n
      else Inl (Thrown (JStr (ascii ''no response left''))), Suc n)"

text \<open>The pages an iterator yields: \<open>yields it w ps = Some (it', w')\<close> says that the
  successive \<open>next()\<close> calls on \<open>it\<close>, starting in the world \<open>w\<close>, report the non-empty
  arrays \<open>ps\<close>, one each, and leave the iterator as \<open>it'\<close> and the world as \<open>w'\<close>.\<close>

fun yields ::
  "'w PaginatedIterator \<Rightarrow> 'w \<Rightarrow> jsval list list \<Rightarrow> ('w PaginatedIterator \<times> 'w) option"
where
  "yields it w [] = Some (it, w)"
| "yields it w (p # ps) =
     (case PaginatedIterator_next it w of
        (Inl e, it', w') \<Rightarrow> None
      | (Inr r, it', w') \<Rightarrow>
          if \<not> ir_done r \<and> ir_value r = Plain (JArr p) then yields it' w' ps else None)"

text \<open>An HTTP client stub: the body it answers with depends on the path alone, and a path
  it does not know is refused.\<close>

definition http_stub :: "(jsstring \<times> envelope) list \<Rightarrow> jsstring \<Rightarrow> ('w, envelope) async" where
  "http_stub routes path w =
     (case map_of routes path of
        None \<Rightarrow> Inl (Thrown (JStr (ascii ''not found'')))
      | Some body \<Rightarrow> Inr body, w)"


section \<open>Iterators as objects in a store\<close>

text \<open>Two iterators of one iterable live side by side, so here the iterator objects are
  kept in a store and named by their address. \<open>new PaginatedIterator(...)\<close> in
  \<open>[Symbol.asyncIterator]()\<close> puts the new object at the next free address; \<open>next()\<close> on
  an address runs the method on the object found there and writes the object back.\<close>

type_synonym 'w store = "'w PaginatedIterator list"

definition asyncIterator_ref :: "'w PaginatedIterable \<Rightarrow> 'w store \<Rightarrow> nat \<times> 'w store" where
  "asyncIterator_ref this h = (length h, h @ [asyncIterator this])"

definition next_ref ::
  "nat \<Rightarrow> 'w store \<Rightarrow> 'w \<Rightarrow> (jserror + IteratorResult) \<times> 'w store \<times> 'w"
where
  "next_ref a h w =
     (if a < length h then
        (case PaginatedIterator_next (h ! a) w of
           (res, it', w') \<Rightarrow> (res, h[a := it'], w'))
      else (Inl TypeError, h, w))"

text \<open>A schedule is the order in which \<open>next()\<close> is called on the addresses. Running it
  gives, call by call, the address, what the call settled with and the cursor the iterator
  holds afterwards. \<open>observed b\<close> picks what the iterator at \<open>b\<close> has seen.\<close>

fun interleave ::
  "nat list \<Rightarrow> 'w store \<Rightarrow> 'w
     \<Rightarrow> (nat \<times> (jserror + IteratorResult) \<times> property option) list \<times> 'w store \<times> 'w"
where
  "interleave [] h w = ([], h, w)"
| "interleave (a # sched) h w =
     (case next_ref a h w of
        (res, h', w') \<Rightarrow>
          (case interleave sched h' w' of
             (obs, h'', w'') \<Rightarrow>
               ((a, res, if a < length h' then Some (nextQuery (h' ! a)) else None) # obs,
                h'', w'')))"

definition observed ::
  "nat \<Rightarrow> (nat \<times> (jserror + IteratorResult) \<times> property option) list
     \<Rightarrow> ((jserror + IteratorResult) \<times> property option) list"
where
  "observed b obs = map snd (filter (\<lambda>ob. fst ob = b) obs)"

text \<open>The example data of the properties below: the configuration of \<open>fromGetUsingNext\<close> and
  the envelope \<open>{"data": page, "next": cursor}\<close>.\<close>

definition default_config :: PaginatedIterableConfig where
  "default_config =
     \<lparr>nextField = ascii ''next'', dataField = ascii ''data'', queryParameter = ascii ''next''\<rparr>"

definition envelope :: "jsval list \<Rightarrow> jsval \<Rightarrow> envelope" where
  "envelope page cursor = EObject [(ascii ''data'', JArr page), (ascii ''next'', cursor)]"


section \<open>Properties of the loops\<close>

subsection \<open>One call of \<open>next()\<close>\<close>

lemma of_char_lt: "(of_char c :: nat) < 256"
  by (cases c) (simp add: of_char_def horner_sum_bit_eq_take_bit flip: take_bit_eq_mod)

lemma ascii_inject [simp]: "ascii s = ascii t \<longleftrightarrow> s = t"
proof -
  have "inj (\<lambda>c. word_of_nat (of_char c) :: 16 word)"
  proof (rule injI)
    fix c d :: char
    assume e: "(word_of_nat (of_char c) :: 16 word) = word_of_nat (of_char d)"
    have b: "(256 :: nat) < 2 ^ 16" by simp
    have "(of_char c :: nat) < 2 ^ 16" "(of_char d :: nat) < 2 ^ 16"
      by (rule less_trans[OF of_char_lt b])+
    then have "(of_char c :: nat) = of_char d"
      using e by (simp add: word_of_nat_eq_iff take_bit_nat_eq_self)
    then show "c = d" by simp
  qed
  then show ?thesis by (simp add: ascii_def inj_map_eq_map)
qed

lemma ascii_empty [simp]: "ascii s = [] \<longleftrightarrow> s = []" "[] = ascii s \<longleftrightarrow> s = []"
  by (auto simp: ascii_def)

lemma js_number_zero [simp]: "js_number n = JNum 0 \<longleftrightarrow> n = 0"
proof -
  have "min n 9007199254740991 < 2 ^ 54" by simp
  then have "(word_of_nat (min n 9007199254740991) :: 54 word) = 0 \<longleftrightarrow> min n 9007199254740991 = 0"
    using dvd_imp_le[of "2 ^ 54" "min n 9007199254740991"]
    by (auto simp: word_of_nat_eq_0_iff)
  then show ?thesis by (auto simp: js_number_def)
qed

lemma js_get_defined:
  assumes "js_get v a = Inr d"
  shows "\<exists>c. js_get v b = Inr c"
  using assms by (cases v) (auto split: option.splits)

lemma next_fetch_fails:
  assumes "it_nextPage it (nextQuery it) w = (Inl e, w')"
  shows "PaginatedIterator_next it w = (Inl e, it, w')"
  using assms by (simp add: PaginatedIterator_next_def)

lemma next_envelope:
  assumes "it_nextPage it (nextQuery it) w = (Inr env, w')"
    and "js_get env (nextField (it_config it)) = Inr c"
    and "js_get env (dataField (it_config it)) = Inr (Plain (JArr xs))"
  shows "PaginatedIterator_next it w
           = (Inr \<lparr>ir_value = Plain (JArr xs), ir_done = (xs = [])\<rparr>, it\<lparr>nextQuery := c\<rparr>, w')"
  using assms by (simp add: PaginatedIterator_next_def Let_def)

lemma next_no_data:
  assumes "it_nextPage it (nextQuery it) w = (Inr env, w')"
    and "js_get env (nextField (it_config it)) = Inr c"
    and "js_get env (dataField (it_config it)) = Inr d"
    and "d = Plain JUndefined \<or> d = Plain JNull"
  shows "PaginatedIterator_next it w = (Inl TypeError, it\<lparr>nextQuery := c\<rparr>, w')"
  using assms by (auto simp: PaginatedIterator_next_def Let_def)

lemma next_value_array:
  assumes "PaginatedIterator_next it w = (Inr r, it', w')" and "ir_value r = Plain (JArr p)"
  shows "ir_done r = (p = [])"
  using assms
  by (auto simp: PaginatedIterator_next_def Let_def split: prod.splits sum.splits)

lemma next_keeps_fetcher:
  assumes "PaginatedIterator_next it w = (res, it', w')"
  shows "it_nextPage it' = it_nextPage it \<and> it_config it' = it_config it"
  using assms
  by (auto simp: PaginatedIterator_next_def Let_def split: prod.splits sum.splits)

lemma yields_keeps_fetcher:
  assumes "yields it w ps = Some (it', w')"
  shows "it_nextPage it' = it_nextPage it \<and> it_config it' = it_config it"
  using assms
proof (induction ps arbitrary: it w)
  case Nil
  then show ?case by simp
next
  case (Cons p ps)
  obtain r it1 w1 where n: "PaginatedIterator_next it w = (Inr r, it1, w1)"
    and y: "yields it1 w1 ps = Some (it', w')"
    using Cons.prems by (auto split: prod.splits sum.splits if_splits)
  show ?case using Cons.IH[OF y] next_keeps_fetcher[OF n] by simp
qed

lemma yields_from_iterable:
  assumes "yields (asyncIterator this) w ps = Some (it1, w1)"
  shows "it_nextPage it1 = nextPage this
       \<and> nextField (it_config it1) = nextField (config this)
       \<and> dataField (it_config it1) = dataField (config this)"
  using yields_keeps_fetcher[OF assms]
  by (simp add: asyncIterator_def PaginatedIteratorConfig.truncate_def)

subsection \<open>One round of the outer loop\<close>

lemma for_await_yield:
  assumes "PaginatedIterator_next it w = (Inr r, it', w')" "\<not> ir_done r"
    and "body (ir_value r) s w' = (Inr (Normal s'), w'')"
  shows "for_await body it s w = for_await body it' s' w''"
  using assms by (subst for_await.simps) simp

lemma for_await_done:
  assumes "PaginatedIterator_next it w = (Inr r, it', w')" "ir_done r"
  shows "for_await body it s w = Some (Inr (Normal s), w')"
  using assms by (subst for_await.simps) simp

lemma for_await_fail:
  assumes "PaginatedIterator_next it w = (Inl e, it', w')"
  shows "for_await body it s w = Some (Inl e, w')"
  using assms by (subst for_await.simps) simp

lemma for_await_return:
  assumes "PaginatedIterator_next it w = (Inr r, it', w')" "\<not> ir_done r"
    and "body (ir_value r) s w' = (Inr (Returned x), w'')"
  shows "for_await body it s w = Some (Inr (Returned x), w'')"
  using assms by (subst for_await.simps) simp

lemma for_await_throw:
  assumes "PaginatedIterator_next it w = (Inr r, it', w')" "\<not> ir_done r"
    and "body (ir_value r) s w' = (Inl e, w'')"
  shows "for_await body it s w = Some (Inl e, w'')"
  using assms by (subst for_await.simps) simp

subsection \<open>The fetch log\<close>

lemma next_logged:
  assumes "it_nextPage it = logged f"
    and "PaginatedIterator_next it (w, l) = (r, it', (w', l'))"
  shows "l' = l @ [nextQuery it] \<and> it_nextPage it' = logged f"
  using assms
  by (auto simp: PaginatedIterator_next_def logged_def Let_def split: prod.splits sum.splits)

lemma yields_logged:
  assumes "it_nextPage it = logged f"
    and "yields it (w, l) ps = Some (it', (w', l'))"
  shows "length l' = length l + length ps \<and> it_nextPage it' = logged f"
  using assms
proof (induction ps arbitrary: it w l)
  case Nil
  then show ?case by simp
next
  case (Cons p ps)
  obtain r it1 w1 l1 where n: "PaginatedIterator_next it (w, l) = (Inr r, it1, (w1, l1))"
    and y: "yields it1 (w1, l1) ps = Some (it', (w', l'))"
    using Cons.prems(2) by (auto split: prod.splits sum.splits if_splits)
  have "l1 = l @ [nextQuery it] \<and> it_nextPage it1 = logged f"
    using next_logged[OF Cons.prems(1) n] .
  then show ?case using Cons.IH[of it1 w1 l1] y by simp
qed

lemma logged_call_count:
  assumes "yields (asyncIterator \<lparr>nextPage = logged f, config = cfg\<rparr>) (w, []) ps = Some (it1, wl1)"
    and "PaginatedIterator_next it1 wl1 = (res, it2, (w2, calls))"
  shows "length calls = length ps + 1"
proof -
  obtain w1 l1 where wl1: "wl1 = (w1, l1)" by (cases wl1)
  have i: "it_nextPage (asyncIterator \<lparr>nextPage = logged f, config = cfg\<rparr>) = logged f"
    by (simp add: asyncIterator_def)
  have a: "length l1 = length ps \<and> it_nextPage it1 = logged f"
    using yields_logged[OF i, of w "[]" ps it1 w1 l1] assms(1) wl1 by simp
  have b: "calls = l1 @ [nextQuery it1]"
    using next_logged[of it1 f w1 l1 res it2 w2 calls] a assms(2) wl1 by simp
  show ?thesis using a b by simp
qed

subsection \<open>The inner loop of \<open>flatMapNotNull\<close>\<close>

lemma truthy_iff:
  "truthy v = (v \<notin> {JUndefined, JNull, JBool False, JNum 0, JStr []})"
  by (cases v) auto

lemma limit_reached_mono:
  "limit_reached limit r \<Longrightarrow> length r \<le> length r' \<Longrightarrow> limit_reached limit r'"
  by (auto simp: limit_reached_def split: option.splits)

lemma page_through:
  assumes "\<forall>x\<in>set xs. \<forall>w. mapper x w = (Inr (m x), w)"
    and "\<not> limit_reached limit (acc @ filter truthy (map m xs))"
  shows "flatMapNotNull_page mapper limit xs acc w = (Inr (Normal (acc @ filter truthy (map m xs))), w)"
  using assms
proof (induction xs arbitrary: acc)
  case Nil
  then show ?case by simp
next
  case (Cons x xs)
  let ?acc' = "if truthy (m x) then acc @ [m x] else acc"
  have eq: "acc @ filter truthy (map m (x # xs)) = ?acc' @ filter truthy (map m xs)" by simp
  have nr: "\<not> limit_reached limit ?acc'"
    using Cons.prems(2) limit_reached_mono[of limit ?acc' "acc @ filter truthy (map m (x # xs))"]
    by auto
  have "flatMapNotNull_page mapper limit xs ?acc' w = (Inr (Normal (?acc' @ filter truthy (map m xs))), w)"
    using Cons.IH[of ?acc'] Cons.prems eq by auto
  then show ?case using Cons.prems(1) nr eq by (simp add: Let_def)
qed

lemma page_hit:
  assumes "\<forall>x\<in>set (pre @ [x0]). \<forall>w. mapper x w = (Inr (m x), w)"
    and "\<not> limit_reached limit (acc @ filter truthy (map m pre))"
    and "limit_reached limit (acc @ filter truthy (map m (pre @ [x0])))"
  shows "flatMapNotNull_page mapper limit (pre @ x0 # post) acc w
           = (Inr (Returned (acc @ filter truthy (map m (pre @ [x0])))), w)"
  using assms
proof (induction pre arbitrary: acc)
  case Nil
  then show ?case by (cases "truthy (m x0)") (auto simp: Let_def)
next
  case (Cons x xs)
  let ?acc' = "if truthy (m x) then acc @ [m x] else acc"
  have eq: "\<And>ys. acc @ filter truthy (map m (x # ys)) = ?acc' @ filter truthy (map m ys)" by simp
  have nr: "\<not> limit_reached limit ?acc'"
    using Cons.prems(2) limit_reached_mono[of limit ?acc' "acc @ filter truthy (map m (x # xs))"]
    by auto
  have "flatMapNotNull_page mapper limit (xs @ x0 # post) ?acc' w
           = (Inr (Returned (?acc' @ filter truthy (map m (xs @ [x0])))), w)"
    using Cons.IH[of ?acc'] Cons.prems eq by auto
  then show ?case using Cons.prems(1) nr eq by (simp add: Let_def)
qed

lemma page_limit_zero:
  "flatMapNotNull_page mapper (Some 0) xs acc w = flatMapNotNull_page mapper None xs acc w"
  by (induction xs arbitrary: acc w) (auto simp: limit_reached_def Let_def split: prod.splits sum.splits)

subsection \<open>\<open>flatMapNotNull\<close> over the pages an iterator yields\<close>

lemma flatMapNotNull_prefix:
  assumes "yields it w ps = Some (it', w')"
    and "\<forall>x\<in>set (concat ps). \<forall>w. mapper x w = (Inr (m x), w)"
    and "\<not> limit_reached limit (acc @ filter truthy (map m (concat ps)))"
  shows "for_await (flatMapNotNull_body mapper limit) it acc w
           = for_await (flatMapNotNull_body mapper limit) it' (acc @ filter truthy (map m (concat ps))) w'"
  using assms
proof (induction ps arbitrary: it w acc)
  case Nil
  then show ?case by simp
next
  case (Cons p ps)
  obtain r it1 w1 where n: "PaginatedIterator_next it w = (Inr r, it1, w1)"
    and nd: "\<not> ir_done r" and v: "ir_value r = Plain (JArr p)" and y: "yields it1 w1 ps = Some (it', w')"
    using Cons.prems(1) by (auto split: prod.splits sum.splits if_splits)
  let ?acc' = "acc @ filter truthy (map m p)"
  have nr: "\<not> limit_reached limit ?acc'"
    using Cons.prems(3) limit_reached_mono[of limit ?acc' "acc @ filter truthy (map m (concat (p # ps)))"]
    by auto
  have b: "flatMapNotNull_body mapper limit (ir_value r) acc w1 = (Inr (Normal ?acc'), w1)"
    using page_through[of p mapper m limit acc w1] Cons.prems(2) nr v
    by (simp add: flatMapNotNull_body_def)
  have "for_await (flatMapNotNull_body mapper limit) it acc w
          = for_await (flatMapNotNull_body mapper limit) it1 ?acc' w1"
    using n nd b by (rule for_await_yield)
  also have "\<dots> = for_await (flatMapNotNull_body mapper limit) it' (?acc' @ filter truthy (map m (concat ps))) w'"
    using Cons.IH[OF y, of ?acc'] Cons.prems(2,3) by simp
  finally show ?case by simp
qed

lemma flatMapNotNull_exhausted:
  assumes "yields (asyncIterator this) w ps = Some (it1, w1)"
    and "PaginatedIterator_next it1 w1 = (Inr r, it2, w2)"
    and "ir_done r"
    and "\<forall>x\<in>set (concat ps). \<forall>w. mapper x w = (Inr (m x), w)"
    and "\<not> limit_reached limit (filter truthy (map m (concat ps)))"
  shows "flatMapNotNull this mapper limit w = Some (Inr (filter truthy (map m (concat ps))), w2)"
proof -
  have "for_await (flatMapNotNull_body mapper limit) (asyncIterator this) [] w
          = for_await (flatMapNotNull_body mapper limit) it1
              ([] @ filter truthy (map m (concat ps))) w1"
    using assms(1,4,5) by (intro flatMapNotNull_prefix) simp_all
  also have "\<dots> = Some (Inr (Normal ([] @ filter truthy (map m (concat ps)))), w2)"
    using assms(2,3) by (rule for_await_done)
  finally show ?thesis by (simp add: flatMapNotNull_def)
qed

lemma all_pages_exhausted:
  assumes "yields (asyncIterator this) w ps = Some (it1, w1)"
    and "PaginatedIterator_next it1 w1 = (Inr r, it2, w2)"
    and "ir_done r"
  shows "all_pages this w = Some (Inr (filter truthy (concat ps)), w2)"
  using flatMapNotNull_exhausted[OF assms, of "\<lambda>it. Promise_resolve it" "\<lambda>x. x" None]
  by (simp add: all_pages_def Promise_resolve_def limit_reached_def)

lemma flatMapNotNull_limit_hit:
  assumes "yields (asyncIterator this) w pre = Some (it1, w1)"
    and "PaginatedIterator_next it1 w1 = (Inr r, it2, w2)"
    and "ir_value r = Plain (JArr (xs @ x0 # post))"
    and "\<forall>x\<in>set (concat pre @ xs @ [x0]). \<forall>w. mapper x w = (Inr (m x), w)"
    and "\<not> limit_reached limit (filter truthy (map m (concat pre @ xs)))"
    and "limit_reached limit (filter truthy (map m (concat pre @ xs @ [x0])))"
  shows "flatMapNotNull this mapper limit w
           = Some (Inr (filter truthy (map m (concat pre @ xs @ [x0]))), w2)"
proof -
  let ?acc = "filter truthy (map m (concat pre))"
  have nd: "\<not> ir_done r" using next_value_array[OF assms(2,3)] by simp
  have nr: "\<not> limit_reached limit ?acc"
    using assms(5) limit_reached_mono[of limit ?acc "filter truthy (map m (concat pre @ xs))"]
    by auto
  have b: "flatMapNotNull_body mapper limit (ir_value r) ?acc w2
             = (Inr (Returned (?acc @ filter truthy (map m (xs @ [x0])))), w2)"
    using page_hit[of xs x0 mapper m limit ?acc post w2] assms(3,4,5,6)
    by (simp add: flatMapNotNull_body_def)
  have "for_await (flatMapNotNull_body mapper limit) (asyncIterator this) [] w
          = for_await (flatMapNotNull_body mapper limit) it1 ([] @ ?acc) w1"
    using assms(1,4) nr by (intro flatMapNotNull_prefix) auto
  also have "\<dots> = Some (Inr (Returned (?acc @ filter truthy (map m (xs @ [x0])))), w2)"
    using assms(2) nd b by (intro for_await_return[where r = r and it' = it2 and w' = w2]) simp_all
  finally show ?thesis by (simp add: flatMapNotNull_def)
qed

lemma flatMapNotNull_next_fails:
  assumes "yields (asyncIterator this) w ps = Some (it1, w1)"
    and "PaginatedIterator_next it1 w1 = (Inl e, it2, w2)"
    and "\<forall>x\<in>set (concat ps). \<forall>w. mapper x w = (Inr (m x), w)"
    and "\<not> limit_reached limit (filter truthy (map m (concat ps)))"
  shows "flatMapNotNull this mapper limit w = Some (Inl e, w2)"
proof -
  have "for_await (flatMapNotNull_body mapper limit) (asyncIterator this) [] w
          = for_await (flatMapNotNull_body mapper limit) it1
              ([] @ filter truthy (map m (concat ps))) w1"
    using assms(1,3,4) by (intro flatMapNotNull_prefix) simp_all
  also have "\<dots> = Some (Inl e, w2)"
    using assms(2) by (rule for_await_fail)
  finally show ?thesis by (simp add: flatMapNotNull_def)
qed

subsection \<open>\<open>findFirstAsync\<close> over the pages an iterator yields\<close>

lemma find_append_hit:
  assumes "\<forall>x\<in>set ys. \<not> p x" and "p x0"
  shows "List.find p (ys @ x0 # zs) = Some x0"
  using assms by (induction ys) simp_all

lemma find_page_none:
  assumes "\<forall>x\<in>set xs. \<forall>w. predicate x w = (Inr False, w)"
  shows "findFirstAsync_page predicate xs w = (Inr (Normal ()), w)"
  using assms by (induction xs) simp_all

lemma find_page_hit:
  assumes "\<forall>x\<in>set pre. \<forall>w. predicate x w = (Inr False, w)"
    and "predicate x0 w = (Inr True, w')"
  shows "findFirstAsync_page predicate (pre @ x0 # post) w = (Inr (Returned x0), w')"
  using assms by (induction pre) simp_all

lemma findFirstAsync_prefix:
  assumes "yields it w ps = Some (it', w')"
    and "\<forall>x\<in>set (concat ps). \<forall>w. predicate x w = (Inr False, w)"
  shows "for_await (findFirstAsync_body predicate) it () w
           = for_await (findFirstAsync_body predicate) it' () w'"
  using assms
proof (induction ps arbitrary: it w)
  case Nil
  then show ?case by simp
next
  case (Cons p ps)
  obtain r it1 w1 where n: "PaginatedIterator_next it w = (Inr r, it1, w1)"
    and nd: "\<not> ir_done r" and v: "ir_value r = Plain (JArr p)" and y: "yields it1 w1 ps = Some (it', w')"
    using Cons.prems(1) by (auto split: prod.splits sum.splits if_splits)
  have b: "findFirstAsync_body predicate (ir_value r) () w1 = (Inr (Normal ()), w1)"
    using find_page_none[of p predicate w1] Cons.prems(2) v
    by (simp add: findFirstAsync_body_def)
  have "for_await (findFirstAsync_body predicate) it () w
          = for_await (findFirstAsync_body predicate) it1 () w1"
    using n nd b by (rule for_await_yield)
  also have "\<dots> = for_await (findFirstAsync_body predicate) it' () w'"
    using Cons.IH[OF y] Cons.prems(2) by simp
  finally show ?case .
qed

lemma findFirstAsync_found:
  assumes "yields (asyncIterator this) w pre = Some (it1, w1)"
    and "PaginatedIterator_next it1 w1 = (Inr r, it2, w2)"
    and "ir_value r = Plain (JArr (xs @ x0 # post))"
    and "\<forall>x\<in>set (concat pre @ xs). \<forall>w. predicate x w = (Inr False, w)"
    and "predicate x0 w2 = (Inr True, w3)"
  shows "findFirstAsync this predicate w = Some (Inr x0, w3)"
proof -
  have nd: "\<not> ir_done r" using next_value_array[OF assms(2,3)] by simp
  have b: "findFirstAsync_body predicate (ir_value r) () w2 = (Inr (Returned x0), w3)"
    using find_page_hit[of xs predicate x0 w2 w3 post] assms(3,4,5)
    by (simp add: findFirstAsync_body_def)
  have "for_await (findFirstAsync_body predicate) (asyncIterator this) () w
          = for_await (findFirstAsync_body predicate) it1 () w1"
    using assms(1,4) by (intro findFirstAsync_prefix) auto
  also have "\<dots> = Some (Inr (Returned x0), w3)"
    using assms(2) nd b by (rule for_await_return)
  finally show ?thesis by (simp add: findFirstAsync_def)
qed

lemma findFirstAsync_not_found:
  assumes "yields (asyncIterator this) w ps = Some (it1, w1)"
    and "PaginatedIterator_next it1 w1 = (Inr r, it2, w2)"
    and "ir_done r"
    and "\<forall>x\<in>set (concat ps). \<forall>w. predicate x w = (Inr False, w)"
  shows "findFirstAsync this predicate w = Some (Inr JUndefined, w2)"
proof -
  have "for_await (findFirstAsync_body predicate) (asyncIterator this) () w
          = for_await (findFirstAsync_body predicate) it1 () w1"
    using assms(1,4) by (rule findFirstAsync_prefix)
  also have "\<dots> = Some (Inr (Normal ()), w2)"
    using assms(2,3) by (rule for_await_done)
  finally show ?thesis by (simp add: findFirstAsync_def)
qed

lemma findFirstAsync_next_fails:
  assumes "yields (asyncIterator this) w ps = Some (it1, w1)"
    and "PaginatedIterator_next it1 w1 = (Inl e, it2, w2)"
    and "\<forall>x\<in>set (concat ps). \<forall>w. predicate x w = (Inr False, w)"
  shows "findFirstAsync this predicate w = Some (Inl e, w2)"
proof -
  have "for_await (findFirstAsync_body predicate) (asyncIterator this) () w
          = for_await (findFirstAsync_body predicate) it1 () w1"
    using assms(1,3) by (rule findFirstAsync_prefix)
  also have "\<dots> = Some (Inl e, w2)"
    using assms(2) by (rule for_await_fail)
  finally show ?thesis by (simp add: findFirstAsync_def)
qed

subsection \<open>Iterators in the store\<close>

lemma next_ref_frame:
  assumes "next_ref a h w = (res, h', w')"
  shows "length h' = length h \<and> (\<forall>b. b \<noteq> a \<longrightarrow> h' ! b = h ! b)"
  using assms by (auto simp: next_ref_def split: if_splits prod.splits)

lemma interleave_frame:
  assumes "interleave sched h w = (obs, h', w')"
  shows "length h' = length h \<and> (\<forall>b. b \<notin> set sched \<longrightarrow> h' ! b = h ! b)"
  using assms
proof (induction sched arbitrary: h w obs)
  case Nil
  then show ?case by simp
next
  case (Cons a sched)
  obtain res h1 w1 where n: "next_ref a h w = (res, h1, w1)" by (metis prod_cases3)
  obtain obs1 where i: "interleave sched h1 w1 = (obs1, h', w')"
    using Cons.prems n by (auto split: prod.splits)
  show ?case using Cons.IH[OF i] next_ref_frame[OF n] by auto
qed

lemma next_stateless:
  assumes "\<forall>c w w'. fst (it_nextPage it c w) = fst (it_nextPage it c w')"
  shows "fst (PaginatedIterator_next it w) = fst (PaginatedIterator_next it w')
       \<and> fst (snd (PaginatedIterator_next it w)) = fst (snd (PaginatedIterator_next it w'))"
proof -
  obtain r w1 where a: "it_nextPage it (nextQuery it) w = (r, w1)" by (metis surj_pair)
  obtain r' w1' where b: "it_nextPage it (nextQuery it) w' = (r', w1')" by (metis surj_pair)
  have "r = r'" using assms a b by (metis fst_conv)
  then show ?thesis using a b
    by (auto simp: PaginatedIterator_next_def Let_def split: sum.splits)
qed

lemma interleave_noninterference:
  assumes "\<forall>c w w'. fst (f c w) = fst (f c w')"
    and "b < length h" "b < length h'" "h ! b = h' ! b" "it_nextPage (h ! b) = f"
  shows "observed b (fst (interleave sched h w))
           = observed b (fst (interleave (filter (\<lambda>x. x = b) sched) h' w'))"
  using assms(2-)
proof (induction sched arbitrary: h h' w w')
  case Nil
  then show ?case by (simp add: observed_def)
next
  case (Cons a sched)
  obtain res h1 w1 where n: "next_ref a h w = (res, h1, w1)" by (metis prod_cases3)
  obtain obs1 h2 w2 where i: "interleave sched h1 w1 = (obs1, h2, w2)" by (metis prod_cases3)
  note fr = next_ref_frame[OF n]
  show ?case
  proof (cases "a = b")
    case False
    have "observed b (fst (interleave sched h1 w1))
            = observed b (fst (interleave (filter (\<lambda>x. x = b) sched) h' w'))"
      using Cons.prems fr False by (intro Cons.IH) auto
    then show ?thesis using False n i by (simp add: observed_def)
  next
    case True
    obtain res' h1' w1' where n': "next_ref b h' w' = (res', h1', w1')" by (metis prod_cases3)
    obtain obs1' h2' w2' where i': "interleave (filter (\<lambda>x. x = b) sched) h1' w1' = (obs1', h2', w2')"
      by (metis prod_cases3)
    note fr' = next_ref_frame[OF n']
    have st: "\<forall>c w w'. fst (it_nextPage (h ! b) c w) = fst (it_nextPage (h ! b) c w')"
      using assms(1) Cons.prems(4) by simp
    note ns = next_stateless[OF st, of w w']
    have e: "res = res' \<and> h1 ! b = h1' ! b"
      using n n' True Cons.prems ns
      by (auto simp: next_ref_def split: prod.splits)
    have k: "it_nextPage (h1 ! b) = f"
      using n True Cons.prems next_keeps_fetcher[of "h ! b" w]
      by (auto simp: next_ref_def split: prod.splits)
    have "observed b (fst (interleave sched h1 w1))
            = observed b (fst (interleave (filter (\<lambda>x. x = b) sched) h1' w1'))"
      using Cons.prems fr fr' e k by (intro Cons.IH) auto
    then show ?thesis using True n i n' i' e fr fr' Cons.prems by (simp add: observed_def)
  qed
qed

subsection \<open>The requests of \<open>fromUsing\<close>\<close>

lemma encode_all_fails:
  "(encode_all (code_points s) = Inl e) = (e = URIError \<and> lone_surrogate s)"
proof (induction s rule: code_points.induct)
  case 1
  then show ?case by simp
next
  case (2 u)
  then show ?case by (auto simp: code_point_of_def)
next
  case (3 u v s)
  show ?case
  proof (cases "is_leading u \<and> is_trailing v")
    case True
    then show ?thesis using 3(1) by (auto simp: code_point_of_def split: sum.splits)
  next
    case False
    then show ?thesis using 3(2)
      by (auto simp: code_point_of_def is_leading_def is_trailing_def split: sum.splits)
  qed
qed

lemma encodeURIComponent_fails:
  "(encodeURIComponent s = Inl e) = (e = URIError \<and> lone_surrogate s)"
  using encode_all_fails[of s e] by (auto simp: encodeURIComponent_def split: sum.splits)

lemma falsy_has_string:
  assumes "\<not> ToBoolean c"
  shows "\<exists>t. ToString c = Inr t"
proof (cases c)
  case (Plain v)
  then show ?thesis using assms by (cases v) auto
next
  case (Inherited m)
  then show ?thesis using assms by simp
qed

lemma next_world:
  assumes "PaginatedIterator_next it w = (res, it', w')"
  shows "w' = snd (it_nextPage it (nextQuery it) w)
       \<and> (\<forall>e. fst (it_nextPage it (nextQuery it) w) = Inl e \<longrightarrow> res = Inl e)"
  using assms
  by (auto simp: PaginatedIterator_next_def Let_def split: prod.splits sum.splits)

lemma fromUsing_built:
  assumes "fromUsing http basePath conf = Inr this"
  shows "\<exists>name. encodeURIComponent (queryParameter conf) = Inr name"
  using assms by (auto simp: fromUsing_def Let_def split: sum.splits)

lemma fromUsing_request:
  assumes "fromUsing (logged http) basePath conf = Inr this"
    and "encodeURIComponent (queryParameter conf) = Inr name"
  shows "(ToString c = Inl e \<longrightarrow> nextPage this c (w, paths) = (Inl e, (w, paths)))
       \<and> (ToBoolean c \<and> ToString c = Inr shown \<and> encodeURIComponent shown = Inl e \<longrightarrow>
            nextPage this c (w, paths) = (Inl e, (w, paths)))
       \<and> (ToBoolean c \<and> ToString c = Inr shown \<and> encodeURIComponent shown = Inr encoded \<longrightarrow>
            snd (snd (nextPage this c (w, paths)))
              = paths @ [basePath @ (if js_includes basePath (ascii ''?'') then ascii ''&'' else ascii ''?'')
                           @ name @ ascii ''='' @ encoded])
       \<and> (\<not> ToBoolean c \<longrightarrow> snd (snd (nextPage this c (w, paths))) = paths @ [basePath])"
proof -
  have t: "\<exists>t. ToString c = Inr t" if "\<not> ToBoolean c"
    using that by (rule falsy_has_string)
  show ?thesis
    using assms t
    by (auto simp: fromUsing_def Let_def logged_def split: sum.splits prod.splits)
qed

lemma next_inherited:
  assumes "it_nextPage it (nextQuery it) w = (Inr env, w')"
    and "js_get env (nextField (it_config it)) = Inr c"
    and "js_get env (dataField (it_config it)) = Inr (Inherited mem)"
  shows "PaginatedIterator_next it w
           = (Inr \<lparr>ir_value = Inherited mem,
                   ir_done = (mem \<in> {OP_toString, OP_valueOf, OP_toLocaleString})\<rparr>,
              it\<lparr>nextQuery := c\<rparr>, w')"
  using assms by (cases mem) (simp_all add: PaginatedIterator_next_def Let_def js_number_def)



section \<open>The claims\<close>

text \<open>
  In what follows a callback (mapper or predicate) is described, on the elements it is
  applied to, by the value its promise resolves to: \<open>\<forall>w. mapper x w = (Inr (m x), w)\<close> says
  that the mapper resolves to \<open>m x\<close> on \<open>x\<close> and leaves the remote collection alone. The page
  fetcher is arbitrary; \<open>logged f\<close> is the fetcher \<open>f\<close> with its calls recorded.
\<close>

text \<open>
  C1 (amended). Let an iterator of the iterable yield the non-empty array pages \<open>ps\<close> and then
  report an empty page. Then \<open>all()\<close> returns the truthy elements of \<open>ps\<close>, concatenated in
  encounter order, and the fetcher has been called exactly once per page, the terminating
  empty page included: \<open>length ps + 1\<close> times. For the pages \<open>[A, B]\<close> (cursor \<open>c1\<close>), \<open>[C]\<close>
  (no cursor), \<open>[]\<close> with truthy elements this is \<open>[A, B, C]\<close> after 3 calls.
\<close>

theorem all_returns_truthy_elements_in_order:
  assumes "yields (asyncIterator \<lparr>nextPage = logged f, config = cfg\<rparr>) (w, []) ps = Some (it1, wl1)"
    and "PaginatedIterator_next it1 wl1 = (Inr r, it2, (w2, calls))"
    and "ir_done r"
  shows "all_pages \<lparr>nextPage = logged f, config = cfg\<rparr> (w, [])
           = Some (Inr (filter truthy (concat ps)), (w2, calls))
       \<and> ((\<forall>x\<in>set (concat ps). truthy x) \<longrightarrow>
            all_pages \<lparr>nextPage = logged f, config = cfg\<rparr> (w, [])
              = Some (Inr (concat ps), (w2, calls)))
       \<and> length calls = length ps + 1"
proof -
  have "filter truthy (concat ps) = concat ps" if "\<forall>x\<in>set (concat ps). truthy x"
    using that by (simp add: filter_id_conv)
  then show ?thesis
    using all_pages_exhausted[OF assms] logged_call_count[OF assms(1,2)] by simp
qed

theorem all_returns_truthy_elements_in_order_witness:
  "yields (asyncIterator \<lparr>nextPage = logged (stub [Inr (envelope [JStr (ascii ''A''), JStr (ascii ''B'')] (JStr (ascii ''c1''))),
        Inr (EObject [(ascii ''data'', JArr [JStr (ascii ''C'')])]), Inr (envelope [] JNull)]), config = default_config\<rparr>) (0, [])
      [[JStr (ascii ''A''), JStr (ascii ''B'')], [JStr (ascii ''C'')]]
     = Some (\<lparr>nextQuery = Plain JUndefined, it_nextPage = logged (stub [Inr (envelope [JStr (ascii ''A''), JStr (ascii ''B'')] (JStr (ascii ''c1''))),
        Inr (EObject [(ascii ''data'', JArr [JStr (ascii ''C'')])]), Inr (envelope [] JNull)]),
        it_config = PaginatedIteratorConfig.truncate default_config\<rparr>, (2, [Plain JUndefined, Plain (JStr (ascii ''c1''))]))
  \<and> all_pages \<lparr>nextPage = logged (stub [Inr (envelope [JStr (ascii ''A''), JStr (ascii ''B'')] (JStr (ascii ''c1''))),
        Inr (EObject [(ascii ''data'', JArr [JStr (ascii ''C'')])]), Inr (envelope [] JNull)]), config = default_config\<rparr> (0, [])
     = Some (Inr [JStr (ascii ''A''), JStr (ascii ''B''), JStr (ascii ''C'')], (3, [Plain JUndefined, Plain (JStr (ascii ''c1'')), Plain JUndefined]))"
proof -
  let ?rs = "[Inr (envelope [JStr (ascii ''A''), JStr (ascii ''B'')] (JStr (ascii ''c1''))),
        Inr (EObject [(ascii ''data'', JArr [JStr (ascii ''C'')])]), Inr (envelope [] JNull)]"
  let ?it1 = "\<lparr>nextQuery = Plain JUndefined, it_nextPage = logged (stub ?rs),
        it_config = PaginatedIteratorConfig.truncate default_config\<rparr>"
  have y: "yields (asyncIterator \<lparr>nextPage = logged (stub ?rs), config = default_config\<rparr>) (0, [])
      [[JStr (ascii ''A''), JStr (ascii ''B'')], [JStr (ascii ''C'')]] = Some (?it1, (2, [Plain JUndefined, Plain (JStr (ascii ''c1''))]))"
    by (simp add: PaginatedIterator_next_def asyncIterator_def logged_def stub_def
        default_config_def envelope_def PaginatedIteratorConfig.truncate_def Let_def Object_prototype_def)
  have n: "PaginatedIterator_next ?it1 (2, [Plain JUndefined, Plain (JStr (ascii ''c1''))])
     = (Inr \<lparr>ir_value = Plain (JArr []), ir_done = True\<rparr>, ?it1\<lparr>nextQuery := Plain JNull\<rparr>, (3, [Plain JUndefined, Plain (JStr (ascii ''c1'')), Plain JUndefined]))"
    by (simp add: PaginatedIterator_next_def asyncIterator_def logged_def stub_def
        default_config_def envelope_def PaginatedIteratorConfig.truncate_def Let_def Object_prototype_def)
  show ?thesis
    using all_returns_truthy_elements_in_order[OF y n] y by simp
qed

text \<open>As C1 is stated, with the elements of every page, it fails on a page that holds a
  falsy element: the number \<open>0\<close> is left out of the result.\<close>

theorem all_drops_falsy_counterexample:
  "all_pages \<lparr>nextPage = stub [Inr (envelope [JNum 0, JNum 7] JNull), Inr (envelope [] JNull)],
               config = default_config\<rparr> 0
     = Some (Inr [JNum 7], 2)
   \<and> all_pages \<lparr>nextPage = stub [Inr (envelope [JNum 0, JNum 7] JNull), Inr (envelope [] JNull)],
                 config = default_config\<rparr> 0
     \<noteq> Some (Inr (concat [[JNum 0, JNum 7]]), 2)"
  by (simp add: all_pages_def flatMapNotNull_def flatMapNotNull_body_def for_await.simps
      PaginatedIterator_next_def asyncIterator_def stub_def default_config_def envelope_def
      PaginatedIteratorConfig.truncate_def Let_def Promise_resolve_def limit_reached_def)

text \<open>
  C2. When the fetcher answers with an envelope whose data field is an array \<open>xs\<close>, the step
  of the iterator reports \<open>done\<close> exactly when \<open>xs\<close> is empty, whatever the envelope holds
  under the cursor field (\<open>c\<close> is \<open>undefined\<close> when the field is missing). A non-empty page is
  yielded, and once the body of the loop has dealt with it the loop fetches again, with
  the cursor \<open>c\<close>: it is the answer to that fetch, here an empty page, that ends the loop.
\<close>

theorem done_iff_page_empty:
  fixes it :: "'w PaginatedIterator"
    and body :: "property \<Rightarrow> 's \<Rightarrow> ('w, ('r, 's) completion) async"
  assumes "it_nextPage it (nextQuery it) w = (Inr env, w1)"
    and "js_get env (dataField (it_config it)) = Inr (Plain (JArr xs))"
    and "js_get env (nextField (it_config it)) = Inr c"
  shows "PaginatedIterator_next it w
           = (Inr \<lparr>ir_value = Plain (JArr xs), ir_done = (xs = [])\<rparr>, it\<lparr>nextQuery := c\<rparr>, w1)
       \<and> (xs \<noteq> [] \<longrightarrow> yields it w [xs] = Some (it\<lparr>nextQuery := c\<rparr>, w1))
       \<and> (xs \<noteq> [] \<and> body (Plain (JArr xs)) s w1 = (Inr (Normal s'), w2)
            \<and> it_nextPage it c w2 = (Inr env2, w3)
            \<and> js_get env2 (dataField (it_config it)) = Inr (Plain (JArr []))
            \<longrightarrow> for_await body it s w = Some (Inr (Normal s'), w3))"
proof -
  let ?it' = "it\<lparr>nextQuery := c\<rparr>"
  have n: "PaginatedIterator_next it w
             = (Inr \<lparr>ir_value = Plain (JArr xs), ir_done = (xs = [])\<rparr>, ?it', w1)"
    using assms(1,3,2) by (rule next_envelope)
  have y: "yields it w [xs] = Some (?it', w1)" if "xs \<noteq> []"
    using n that by simp
  have l: "for_await body it s w = Some (Inr (Normal s'), w3)"
    if "xs \<noteq> []" and b: "body (Plain (JArr xs)) s w1 = (Inr (Normal s'), w2)"
      and f2: "it_nextPage it c w2 = (Inr env2, w3)"
      and d2: "js_get env2 (dataField (it_config it)) = Inr (Plain (JArr []))"
  proof -
    obtain c2 where c2: "js_get env2 (nextField (it_config ?it')) = Inr c2"
      using js_get_defined[OF d2] by auto
    have n2: "PaginatedIterator_next ?it' w2
             = (Inr \<lparr>ir_value = Plain (JArr []), ir_done = ([] = ([] :: jsval list))\<rparr>, ?it'\<lparr>nextQuery := c2\<rparr>, w3)"
      using f2 c2 d2 by (intro next_envelope) simp_all
    have "for_await body it s w = for_await body ?it' s' w2"
      using n that(1) b by (intro for_await_yield[where r = "\<lparr>ir_value = Plain (JArr xs), ir_done = (xs = [])\<rparr>" and w' = w1]) simp_all
    also have "\<dots> = Some (Inr (Normal s'), w3)"
      using n2 by (intro for_await_done[where r = "\<lparr>ir_value = Plain (JArr []), ir_done = True\<rparr>" and it' = "?it'\<lparr>nextQuery := c2\<rparr>"]) simp_all
    finally show ?thesis .
  qed
  show ?thesis
    using n y l by blast
qed

theorem done_iff_page_empty_witness:
  "it_nextPage (asyncIterator \<lparr>nextPage = stub [Inr (EObject [(ascii ''data'', JArr [JStr (ascii ''A'')])]), Inr (envelope [] JNull)],
                               config = default_config\<rparr>) (Plain JUndefined) 0
     = (Inr (EObject [(ascii ''data'', JArr [JStr (ascii ''A'')])]), 1)
   \<and> js_get (EObject [(ascii ''data'', JArr [JStr (ascii ''A'')])]) (ascii ''data'') = Inr (Plain (JArr [JStr (ascii ''A'')]))
   \<and> js_get (EObject [(ascii ''data'', JArr [JStr (ascii ''A'')])]) (ascii ''next'') = Inr (Plain JUndefined)
   \<and> PaginatedIterator_next
        (asyncIterator \<lparr>nextPage = stub [Inr (EObject [(ascii ''data'', JArr [JStr (ascii ''A'')])]), Inr (envelope [] JNull)],
                        config = default_config\<rparr>) 0
     = (Inr \<lparr>ir_value = Plain (JArr [JStr (ascii ''A'')]), ir_done = False\<rparr>,
        (asyncIterator \<lparr>nextPage = stub [Inr (EObject [(ascii ''data'', JArr [JStr (ascii ''A'')])]), Inr (envelope [] JNull)],
                        config = default_config\<rparr>)\<lparr>nextQuery := Plain JUndefined\<rparr>, 1)
   \<and> for_await (flatMapNotNull_body (\<lambda>it. Promise_resolve it) None)
        (asyncIterator \<lparr>nextPage = stub [Inr (EObject [(ascii ''data'', JArr [JStr (ascii ''A'')])]), Inr (envelope [] JNull)],
                        config = default_config\<rparr>) [] 0
     = Some (Inr (Normal [JStr (ascii ''A'')]), 2)"
proof -
  let ?P = "\<lparr>nextPage = stub [Inr (EObject [(ascii ''data'', JArr [JStr (ascii ''A'')])]), Inr (envelope [] JNull)],
             config = default_config\<rparr>"
  let ?it = "asyncIterator ?P"
  let ?env = "EObject [(ascii ''data'', JArr [JStr (ascii ''A'')])]"
  let ?body = "flatMapNotNull_body (\<lambda>it. Promise_resolve it) None
                 :: property \<Rightarrow> jsval list \<Rightarrow> (nat, (jsval list, jsval list) completion) async"
  have h1: "it_nextPage ?it (nextQuery ?it) 0 = (Inr ?env, 1)"
    by (simp add: PaginatedIterator_next_def asyncIterator_def stub_def default_config_def
        envelope_def PaginatedIteratorConfig.truncate_def Let_def Object_prototype_def)
  have h2: "js_get ?env (dataField (it_config ?it)) = Inr (Plain (JArr [JStr (ascii ''A'')]))"
    by (simp add: PaginatedIterator_next_def asyncIterator_def stub_def default_config_def
        envelope_def PaginatedIteratorConfig.truncate_def Let_def Object_prototype_def)
  have c: "js_get ?env (nextField (it_config ?it)) = Inr (Plain JUndefined)"
    by (simp add: PaginatedIterator_next_def asyncIterator_def stub_def default_config_def
        envelope_def PaginatedIteratorConfig.truncate_def Let_def Object_prototype_def)
  have b: "?body (Plain (JArr [JStr (ascii ''A'')])) [] 1 = (Inr (Normal [JStr (ascii ''A'')]), 1)"
    by (simp add: flatMapNotNull_body_def Promise_resolve_def limit_reached_def)
  have f2: "it_nextPage ?it (Plain JUndefined) 1 = (Inr (envelope [] JNull), 2)"
    by (simp add: PaginatedIterator_next_def asyncIterator_def stub_def default_config_def
        envelope_def PaginatedIteratorConfig.truncate_def Let_def Object_prototype_def)
  have d2: "js_get (envelope [] JNull) (dataField (it_config ?it)) = Inr (Plain (JArr []))"
    by (simp add: PaginatedIterator_next_def asyncIterator_def stub_def default_config_def
        envelope_def PaginatedIteratorConfig.truncate_def Let_def Object_prototype_def)
  show ?thesis
    using done_iff_page_empty[OF h1 h2 c, where body = ?body and s = "[]" and s' = "[JStr (ascii ''A'')]"
        and ?w2.0 = 1 and ?env2.0 = "envelope [] JNull" and ?w3.0 = 2]
      h1 h2 c b f2 d2
    by (simp add: PaginatedIterator_next_def asyncIterator_def stub_def default_config_def
        envelope_def PaginatedIteratorConfig.truncate_def Let_def Object_prototype_def)
qed

text \<open>
  C3. Let the iterator yield the pages \<open>pre\<close> and then a page \<open>xs @ x0 # post\<close>, and let the
  mapper resolve to \<open>m x\<close> on the elements up to \<open>x0\<close>. If the kept (truthy) results number
  fewer than the positive limit \<open>l\<close> before \<open>x0\<close> and reach it with \<open>x0\<close>, then
  \<open>flatMapNotNull\<close> returns at \<open>x0\<close>: the result is the kept results up to \<open>x0\<close>, exactly \<open>l\<close>
  of them, in encounter order (the first \<open>l\<close> kept results of the pages fetched), whatever
  the rest \<open>post\<close> of the page is and whatever the mapper would do there, and no page is
  fetched after this one: \<open>length pre + 1\<close> calls.
\<close>

theorem flatMapNotNull_stops_at_limit:
  assumes "yields (asyncIterator \<lparr>nextPage = logged f, config = cfg\<rparr>) (w, []) pre = Some (it1, wl1)"
    and "PaginatedIterator_next it1 wl1 = (Inr r, it2, (w2, calls))"
    and "ir_value r = Plain (JArr (xs @ x0 # post))"
    and "\<forall>x\<in>set (concat pre @ xs @ [x0]). \<forall>w. mapper x w = (Inr (m x), w)"
    and "0 < l"
    and "int (length (filter truthy (map m (concat pre @ xs)))) < l"
    and "l \<le> int (length (filter truthy (map m (concat pre @ xs @ [x0]))))"
  shows "flatMapNotNull \<lparr>nextPage = logged f, config = cfg\<rparr> mapper (Some l) (w, [])
           = Some (Inr (filter truthy (map m (concat pre @ xs @ [x0]))), (w2, calls))
       \<and> int (length (filter truthy (map m (concat pre @ xs @ [x0])))) = l
       \<and> filter truthy (map m (concat pre @ xs @ [x0]))
           = take (nat l) (filter truthy (map m (concat (pre @ [xs @ x0 # post]))))
       \<and> length calls = length pre + 1"
proof -
  let ?k = "filter truthy (map m (concat pre @ xs @ [x0]))"
  have nr: "\<not> limit_reached (Some l) (filter truthy (map m (concat pre @ xs)))"
    using assms(6) by (simp add: limit_reached_def)
  have r: "limit_reached (Some l) ?k"
    using assms(5,7) by (simp add: limit_reached_def)
  have len: "int (length ?k) = l"
    using assms(6,7) by (auto split: if_splits)
  have "filter truthy (map m (concat (pre @ [xs @ x0 # post]))) = ?k @ filter truthy (map m post)"
    by simp
  then have tk: "?k = take (nat l) (filter truthy (map m (concat (pre @ [xs @ x0 # post]))))"
    using len by (metis append_eq_conv_conj nat_int)
  show ?thesis
    using flatMapNotNull_limit_hit[OF assms(1,2,3,4) nr r] len tk
      logged_call_count[OF assms(1,2)]
    by simp
qed

theorem flatMapNotNull_stops_at_limit_witness:
  "flatMapNotNull \<lparr>nextPage = logged (stub [Inr (envelope [JStr (ascii ''a''), JStr (ascii ''b''), JStr (ascii ''c'')] (JStr (ascii ''c1''))),
                                            Inr (envelope [JStr (ascii ''d'')] JNull), Inr (envelope [] JNull)]),
                   config = default_config\<rparr> (\<lambda>it. Promise_resolve it) (Some 2) (0, [])
     = Some (Inr [JStr (ascii ''a''), JStr (ascii ''b'')], (1, [Plain JUndefined]))"
proof -
  let ?f = "stub [Inr (envelope [JStr (ascii ''a''), JStr (ascii ''b''), JStr (ascii ''c'')] (JStr (ascii ''c1''))),
                  Inr (envelope [JStr (ascii ''d'')] JNull), Inr (envelope [] JNull)]"
  let ?it = "asyncIterator \<lparr>nextPage = logged ?f, config = default_config\<rparr>"
  have y: "yields ?it (0, []) [] = Some (?it, (0, []))" by simp
  have n: "PaginatedIterator_next ?it (0, [])
             = (Inr \<lparr>ir_value = Plain (JArr [JStr (ascii ''a''), JStr (ascii ''b''), JStr (ascii ''c'')]), ir_done = False\<rparr>,
                ?it\<lparr>nextQuery := Plain (JStr (ascii ''c1''))\<rparr>, (1, [Plain JUndefined]))"
    by (simp add: PaginatedIterator_next_def asyncIterator_def logged_def stub_def
        default_config_def envelope_def PaginatedIteratorConfig.truncate_def Let_def Object_prototype_def)
  have v: "ir_value \<lparr>ir_value = Plain (JArr [JStr (ascii ''a''), JStr (ascii ''b''), JStr (ascii ''c'')]), ir_done = False\<rparr>
             = Plain (JArr ([JStr (ascii ''a'')] @ JStr (ascii ''b'') # [JStr (ascii ''c'')]))" by simp
  have m: "\<forall>x\<in>set (concat [] @ [JStr (ascii ''a'')] @ [JStr (ascii ''b'')]).
             \<forall>w :: nat \<times> property list. (\<lambda>it. Promise_resolve it) x w = (Inr ((\<lambda>x. x) x), w)"
    by (simp add: Promise_resolve_def)
  show ?thesis
    using flatMapNotNull_stops_at_limit[OF y n v m, of 2] by simp
qed

text \<open>
  C4. Let the iterator yield the pages \<open>ps\<close>, none of whose elements satisfies the predicate,
  and let \<open>r\<close> be what the following \<open>next()\<close> reports. If \<open>r\<close> is the end of the pages,
  \<open>findFirst\<close> and \<open>findFirstAsync\<close> return \<open>undefined\<close>. If \<open>r\<close> is a page \<open>xs @ x0 # post\<close>
  where \<open>x0\<close> is the first element to satisfy the predicate, they return \<open>x0\<close>, the first
  match in fetch order and then array order. Either way the fetcher has been called
  \<open>length ps + 1\<close> times: no page is fetched after the one that holds the match.
\<close>

theorem findFirst_returns_first_match:
  assumes "yields (asyncIterator \<lparr>nextPage = logged f, config = cfg\<rparr>) (w, []) ps = Some (it1, wl1)"
    and "PaginatedIterator_next it1 wl1 = (Inr r, it2, (w2, calls))"
    and "\<forall>x\<in>set (concat ps). \<not> p x \<and> (\<forall>w. predicate x w = (Inr (p x), w)) \<and> q x = Inr (p x)"
  shows "(ir_done r \<longrightarrow>
            findFirstAsync \<lparr>nextPage = logged f, config = cfg\<rparr> predicate (w, [])
              = Some (Inr JUndefined, (w2, calls))
          \<and> findFirst \<lparr>nextPage = logged f, config = cfg\<rparr> q (w, [])
              = Some (Inr JUndefined, (w2, calls)))
       \<and> (ir_value r = Plain (JArr (xs @ x0 # post))
            \<and> (\<forall>x\<in>set xs. \<not> p x \<and> (\<forall>w. predicate x w = (Inr (p x), w)) \<and> q x = Inr (p x))
            \<and> p x0 \<and> (\<forall>w. predicate x0 w = (Inr (p x0), w)) \<and> q x0 = Inr (p x0)
            \<longrightarrow>
              findFirstAsync \<lparr>nextPage = logged f, config = cfg\<rparr> predicate (w, [])
                = Some (Inr x0, (w2, calls))
            \<and> findFirst \<lparr>nextPage = logged f, config = cfg\<rparr> q (w, [])
                = Some (Inr x0, (w2, calls))
            \<and> List.find p (concat (ps @ [xs @ x0 # post])) = Some x0)
       \<and> length calls = length ps + 1"
proof -
  let ?P = "\<lparr>nextPage = logged f, config = cfg\<rparr>"
  let ?q = "\<lambda>it w1. case q it of Inl e \<Rightarrow> (Inl e, w1) | Inr b \<Rightarrow> Promise_resolve b w1"
  have pn: "\<forall>x\<in>set (concat ps). \<forall>w. predicate x w = (Inr False, w)"
    using assms(3) by auto
  have qn: "\<forall>x\<in>set (concat ps). \<forall>w. ?q x w = (Inr False, w)"
    using assms(3) by (auto simp: Promise_resolve_def)
  have fin: "findFirstAsync ?P predicate (w, []) = Some (Inr JUndefined, (w2, calls))
      \<and> findFirst ?P q (w, []) = Some (Inr JUndefined, (w2, calls))" if "ir_done r"
    using findFirstAsync_not_found[OF assms(1,2) that pn]
      findFirstAsync_not_found[OF assms(1,2) that qn]
    by (simp add: findFirst_def)
  have hit: "findFirstAsync ?P predicate (w, []) = Some (Inr x0, (w2, calls))
      \<and> findFirst ?P q (w, []) = Some (Inr x0, (w2, calls))
      \<and> List.find p (concat (ps @ [xs @ x0 # post])) = Some x0"
    if v: "ir_value r = Plain (JArr (xs @ x0 # post))"
      and s: "\<forall>x\<in>set xs. \<not> p x \<and> (\<forall>w. predicate x w = (Inr (p x), w)) \<and> q x = Inr (p x)"
      and m: "p x0" "\<forall>w. predicate x0 w = (Inr (p x0), w)" "q x0 = Inr (p x0)"
  proof -
    have pn': "\<forall>x\<in>set (concat ps @ xs). \<forall>w. predicate x w = (Inr False, w)"
      using assms(3) s by auto
    have qn': "\<forall>x\<in>set (concat ps @ xs). \<forall>w. ?q x w = (Inr False, w)"
      using assms(3) s by (auto simp: Promise_resolve_def)
    have p0: "predicate x0 (w2, calls) = (Inr True, (w2, calls))" using m by simp
    have q0: "?q x0 (w2, calls) = (Inr True, (w2, calls))"
      using m by (simp add: Promise_resolve_def)
    have nm: "\<forall>x\<in>set (concat ps @ xs). \<not> p x" using assms(3) s by auto
    have "List.find p ((concat ps @ xs) @ x0 # post) = Some x0"
      using nm m(1) by (rule find_append_hit)
    then show ?thesis
      using findFirstAsync_found[OF assms(1,2) v pn' p0]
        findFirstAsync_found[OF assms(1,2) v qn' q0]
      by (simp add: findFirst_def)
  qed
  show ?thesis
    using fin hit logged_call_count[OF assms(1,2)] by blast
qed

theorem findFirst_returns_first_match_witness:
  "findFirst \<lparr>nextPage = logged (stub [Inr (envelope [JNum 1, JNum 2] (JStr (ascii ''c1''))),
                                       Inr (envelope [JNum 3, JNum 4] (JStr (ascii ''c2''))),
                                       Inr (envelope [JNum 5] JNull)]),
              config = default_config\<rparr> (\<lambda>x. Inr (x = JNum 3)) (0, [])
     = Some (Inr (JNum 3), (2, [Plain JUndefined, Plain (JStr (ascii ''c1''))]))
   \<and> findFirstAsync \<lparr>nextPage = logged (stub [Inr (envelope [JNum 1, JNum 2] (JStr (ascii ''c1''))),
                                       Inr (envelope [JNum 3, JNum 4] (JStr (ascii ''c2''))),
                                       Inr (envelope [JNum 5] JNull)]),
              config = default_config\<rparr> (\<lambda>x. Promise_resolve (x = JNum 3)) (0, [])
     = Some (Inr (JNum 3), (2, [Plain JUndefined, Plain (JStr (ascii ''c1''))]))
   \<and> findFirst \<lparr>nextPage = logged (stub [Inr (envelope [JNum 1, JNum 2] (JStr (ascii ''c1''))),
                                       Inr (envelope [] JNull)]),
              config = default_config\<rparr> (\<lambda>x. Inr (x = JNum 3)) (0, [])
     = Some (Inr JUndefined, (2, [Plain JUndefined, Plain (JStr (ascii ''c1''))]))"
proof -
  let ?f = "stub [Inr (envelope [JNum 1, JNum 2] (JStr (ascii ''c1''))),
                  Inr (envelope [JNum 3, JNum 4] (JStr (ascii ''c2''))), Inr (envelope [JNum 5] JNull)]"
  let ?g = "stub [Inr (envelope [JNum 1, JNum 2] (JStr (ascii ''c1''))), Inr (envelope [] JNull)]"
  let ?itf = "asyncIterator \<lparr>nextPage = logged ?f, config = default_config\<rparr>"
  let ?itg = "asyncIterator \<lparr>nextPage = logged ?g, config = default_config\<rparr>"
  let ?p = "\<lambda>x. x = JNum 3"
  let ?pred = "(\<lambda>x. Promise_resolve (x = JNum 3)) :: jsval \<Rightarrow> (nat \<times> property list, bool) async"
  let ?q = "(\<lambda>x. Inr (x = JNum 3)) :: jsval \<Rightarrow> jserror + bool"
  have yf: "yields ?itf (0, []) [[JNum 1, JNum 2]] = Some (?itf\<lparr>nextQuery := Plain (JStr (ascii ''c1''))\<rparr>, (1, [Plain JUndefined]))"
    by (simp add: PaginatedIterator_next_def asyncIterator_def logged_def stub_def
        default_config_def envelope_def PaginatedIteratorConfig.truncate_def Let_def Object_prototype_def)
  have nf: "PaginatedIterator_next (?itf\<lparr>nextQuery := Plain (JStr (ascii ''c1''))\<rparr>) (1, [Plain JUndefined])
              = (Inr \<lparr>ir_value = Plain (JArr [JNum 3, JNum 4]), ir_done = False\<rparr>,
                 ?itf\<lparr>nextQuery := Plain (JStr (ascii ''c2''))\<rparr>, (2, [Plain JUndefined, Plain (JStr (ascii ''c1''))]))"
    by (simp add: PaginatedIterator_next_def asyncIterator_def logged_def stub_def
        default_config_def envelope_def PaginatedIteratorConfig.truncate_def Let_def Object_prototype_def)
  have yg: "yields ?itg (0, []) [[JNum 1, JNum 2]] = Some (?itg\<lparr>nextQuery := Plain (JStr (ascii ''c1''))\<rparr>, (1, [Plain JUndefined]))"
    by (simp add: PaginatedIterator_next_def asyncIterator_def logged_def stub_def
        default_config_def envelope_def PaginatedIteratorConfig.truncate_def Let_def Object_prototype_def)
  have ng: "PaginatedIterator_next (?itg\<lparr>nextQuery := Plain (JStr (ascii ''c1''))\<rparr>) (1, [Plain JUndefined])
              = (Inr \<lparr>ir_value = Plain (JArr []), ir_done = True\<rparr>,
                 ?itg\<lparr>nextQuery := Plain JNull\<rparr>, (2, [Plain JUndefined, Plain (JStr (ascii ''c1''))]))"
    by (simp add: PaginatedIterator_next_def asyncIterator_def logged_def stub_def
        default_config_def envelope_def PaginatedIteratorConfig.truncate_def Let_def Object_prototype_def)
  have s: "\<forall>x\<in>set (concat [[JNum 1, JNum 2]]).
             \<not> ?p x \<and> (\<forall>w. ?pred x w = (Inr (?p x), w)) \<and> ?q x = Inr (?p x)"
    by (simp add: Promise_resolve_def)
  have h0: "\<forall>w. ?pred (JNum 3) w = (Inr (?p (JNum 3)), w)"
    by (simp add: Promise_resolve_def)
  have a: "findFirstAsync \<lparr>nextPage = logged ?f, config = default_config\<rparr> ?pred (0, [])
             = Some (Inr (JNum 3), (2, [Plain JUndefined, Plain (JStr (ascii ''c1''))]))
         \<and> findFirst \<lparr>nextPage = logged ?f, config = default_config\<rparr> ?q (0, [])
             = Some (Inr (JNum 3), (2, [Plain JUndefined, Plain (JStr (ascii ''c1''))]))"
    using findFirst_returns_first_match[OF yf nf s, where xs = "[]" and ?x0.0 = "JNum 3" and post = "[JNum 4]"] h0
    by simp
  have b: "findFirst \<lparr>nextPage = logged ?g, config = default_config\<rparr> ?q (0, [])
             = Some (Inr JUndefined, (2, [Plain JUndefined, Plain (JStr (ascii ''c1''))]))"
    using findFirst_returns_first_match[OF yg ng s] by simp
  show ?thesis using a b by simp
qed

text \<open>
  C5 (amended). For a fetcher built by \<open>fromUsing\<close> (which succeeds exactly when the
  parameter name can be encoded, to \<open>name\<close>): when a fetch resolves with an envelope whose
  cursor field gives \<open>c\<close>, the iterator stores \<open>c\<close>, and the immediately following \<open>next()\<close>
  does this. If \<open>c\<close> is truthy and its string (for a string cursor: \<open>c\<close> itself) is encoded
  to \<open>encoded\<close>, the request goes to \<open>basePath\<close>, then \<open>&\<close> if \<open>basePath\<close> contains \<open>?\<close> and \<open>?\<close>
  otherwise, then \<open>name\<close>, \<open>=\<close> and \<open>encoded\<close>. If \<open>c\<close> is falsy, the request goes to
  \<open>basePath\<close> alone. If \<open>c\<close> is truthy and a surrogate stands alone in its string, which is
  the one case where the string cannot be encoded, no request is made and \<open>next()\<close> rejects
  with a \<open>URIError\<close>; if \<open>c\<close> has no string, no request is made either and \<open>next()\<close> rejects
  with the error of the conversion.
\<close>

theorem cursor_round_trip:
  fixes http :: "jsstring \<Rightarrow> ('w, envelope) async"
  assumes "fromUsing (logged http) basePath conf = Inr this"
    and "encodeURIComponent (queryParameter conf) = Inr name"
    and "nextPage this q (w, paths) = (Inr env, (w1, paths1))"
    and "js_get env (nextField conf) = Inr c"
    and "PaginatedIterator_next ((asyncIterator this)\<lparr>nextQuery := q\<rparr>) (w, paths) = (res1, it1, wl1)"
    and "PaginatedIterator_next it1 wl1 = (res2, it2, wl2)"
  shows "nextQuery it1 = c \<and> wl1 = (w1, paths1)
       \<and> (ToBoolean c \<and> ToString c = Inr shown \<and> encodeURIComponent shown = Inr encoded \<longrightarrow>
            snd wl2 = paths1 @
              [basePath @ (if js_includes basePath (ascii ''?'') then ascii ''&'' else ascii ''?'')
                 @ name @ ascii ''='' @ encoded])
       \<and> (\<not> ToBoolean c \<longrightarrow> snd wl2 = paths1 @ [basePath])
       \<and> (ToBoolean c \<and> ToString c = Inr shown \<and> lone_surrogate shown \<longrightarrow>
            res2 = Inl URIError \<and> wl2 = (w1, paths1))
       \<and> (ToString c = Inl e \<longrightarrow> res2 = Inl e \<and> wl2 = (w1, paths1))
       \<and> (c = Plain (JStr s) \<longrightarrow> ToString c = Inr s)
       \<and> ((\<exists>t. encodeURIComponent shown = Inr t) = (\<not> lone_surrogate shown))"
proof -
  let ?it = "(asyncIterator this)\<lparr>nextQuery := q\<rparr>"
  have cf: "config this = conf"
    using assms(1) by (auto simp: fromUsing_def Let_def split: sum.splits)
  have f: "it_nextPage ?it = nextPage this"
    and nf: "nextField (it_config ?it) = nextField conf"
    using cf by (simp_all add: asyncIterator_def PaginatedIteratorConfig.truncate_def)
  have a: "it1 = ?it\<lparr>nextQuery := c\<rparr> \<and> wl1 = (w1, paths1)"
    using assms(3,4,5) f nf
    by (auto simp: PaginatedIterator_next_def Let_def split: sum.splits)
  then have g: "it_nextPage it1 = nextPage this" and nq: "nextQuery it1 = c"
    and wl: "wl1 = (w1, paths1)"
    using f by simp_all
  note n = next_world[OF assms(6), unfolded g nq wl]
  note r = fromUsing_request[OF assms(1,2), of c _ w1 paths1]
  have enc: "(\<exists>t. encodeURIComponent shown = Inr t) = (\<not> lone_surrogate shown)"
    using encodeURIComponent_fails[of shown] by (cases "encodeURIComponent shown") auto
  have u: "encodeURIComponent shown = Inl URIError" if "lone_surrogate shown"
    using that encodeURIComponent_fails[of shown URIError] by simp
  have c3: "snd wl2 = paths1 @
              [basePath @ (if js_includes basePath (ascii ''?'') then ascii ''&'' else ascii ''?'')
                 @ name @ ascii ''='' @ encoded]"
    if "ToBoolean c" "ToString c = Inr shown" "encodeURIComponent shown = Inr encoded"
    using that n r[of _ shown encoded] by simp
  have c4: "snd wl2 = paths1 @ [basePath]" if "\<not> ToBoolean c"
    using that n r by simp
  have c5: "res2 = Inl URIError \<and> wl2 = (w1, paths1)"
    if "ToBoolean c" "ToString c = Inr shown" "lone_surrogate shown"
    using that u n r[of URIError shown] by simp
  have c6: "res2 = Inl e \<and> wl2 = (w1, paths1)" if "ToString c = Inl e"
    using that n r[of e] by simp
  show ?thesis
    using nq wl c3 c4 c5 c6 enc by auto
qed

theorem cursor_round_trip_witness:
  "snd (snd (snd (PaginatedIterator_next
      ((asyncIterator (projr (fromGetUsingNext (logged (http_stub [(ascii ''/api/items'', envelope [JNum 1] (JStr (ascii ''a b'')))])) (ascii ''/api/items''))))
        \<lparr>nextQuery := Plain (JStr (ascii ''a b''))\<rparr>)
      ((), [ascii ''/api/items'']))))
     = [ascii ''/api/items'', ascii ''/api/items?next=a%20b'']
   \<and> snd (snd (snd (PaginatedIterator_next
      ((asyncIterator (projr (fromGetUsingSkip (logged (http_stub [(ascii ''/api/items?top=1'', envelope [JNum 1] (JNum 20))])) (ascii ''/api/items?top=1''))))
        \<lparr>nextQuery := Plain (JNum 20)\<rparr>)
      ((), [ascii ''/api/items?top=1'']))))
     = [ascii ''/api/items?top=1'', ascii ''/api/items?top=1&%24skip=20'']
   \<and> snd (snd (snd (PaginatedIterator_next
      ((asyncIterator (projr (fromGetUsingNext (logged (http_stub [(ascii ''/api/items'', envelope [JNum 1] (JStr [0x20AC, 0xD83D, 0xDE00]))])) (ascii ''/api/items''))))
        \<lparr>nextQuery := Plain (JStr [0x20AC, 0xD83D, 0xDE00])\<rparr>)
      ((), [ascii ''/api/items'']))))
     = [ascii ''/api/items'', ascii ''/api/items?next=%E2%82%AC%F0%9F%98%80'']
   \<and> snd (snd (snd (PaginatedIterator_next
      ((asyncIterator (projr (fromGetUsingNext (logged (http_stub [(ascii ''/api/items'', envelope [JNum 1] (JNum 0))])) (ascii ''/api/items''))))
        \<lparr>nextQuery := Plain (JNum 0)\<rparr>)
      ((), [ascii ''/api/items'']))))
     = [ascii ''/api/items'', ascii ''/api/items'']
   \<and> fst (PaginatedIterator_next
      ((asyncIterator (projr (fromGetUsingNext (logged (http_stub [(ascii ''/api/items'', envelope [JNum 1] (JStr [0xD83D]))])) (ascii ''/api/items''))))
        \<lparr>nextQuery := Plain (JStr [0xD83D])\<rparr>)
      ((), [ascii ''/api/items''])) = Inl URIError
   \<and> snd (snd (PaginatedIterator_next
      ((asyncIterator (projr (fromGetUsingNext (logged (http_stub [(ascii ''/api/items'', envelope [JNum 1] (JStr [0xD83D]))])) (ascii ''/api/items''))))
        \<lparr>nextQuery := Plain (JStr [0xD83D])\<rparr>)
      ((), [ascii ''/api/items'']))) = ((), [ascii ''/api/items''])"
proof -
  let ?h1 = "logged (http_stub [(ascii ''/api/items'', envelope [JNum 1] (JStr (ascii ''a b'')))])
      :: jsstring \<Rightarrow> (unit \<times> jsstring list, envelope) async"
  let ?c1 = "\<lparr>nextField = ascii ''next'', dataField = ascii ''data'', queryParameter = ascii ''next''\<rparr>"
  let ?T1 = "projr (fromUsing ?h1 (ascii ''/api/items'') ?c1)"
  have b1: "fromUsing ?h1 (ascii ''/api/items'') ?c1 = Inr ?T1"
    by (simp add: fromGetUsingNext_def fromGetUsingSkip_def fromUsing_def http_stub_def
        encodeURIComponent_def ascii_def is_leading_def is_trailing_def code_point_of_def
        encode_code_point_def unreserved_def utf8_def percent_byte_def hex_digit_def
        int_to_string_def nat_to_string.simps digit_char_def
        PaginatedIterator_next_def asyncIterator_def logged_def envelope_def
        PaginatedIteratorConfig.truncate_def Let_def Object_prototype_def)
  have m1: "encodeURIComponent (queryParameter ?c1) = Inr (ascii ''next'')"
    by (simp add: fromGetUsingNext_def fromGetUsingSkip_def fromUsing_def http_stub_def
        encodeURIComponent_def ascii_def is_leading_def is_trailing_def code_point_of_def
        encode_code_point_def unreserved_def utf8_def percent_byte_def hex_digit_def
        int_to_string_def nat_to_string.simps digit_char_def
        PaginatedIterator_next_def asyncIterator_def logged_def envelope_def
        PaginatedIteratorConfig.truncate_def Let_def Object_prototype_def)
  have f1: "nextPage ?T1 (Plain JUndefined) ((), [])
      = (Inr (envelope [JNum 1] (JStr (ascii ''a b''))), ((), [ascii ''/api/items'']))"
    by (simp add: fromGetUsingNext_def fromGetUsingSkip_def fromUsing_def http_stub_def
        encodeURIComponent_def ascii_def is_leading_def is_trailing_def code_point_of_def
        encode_code_point_def unreserved_def utf8_def percent_byte_def hex_digit_def
        int_to_string_def nat_to_string.simps digit_char_def
        PaginatedIterator_next_def asyncIterator_def logged_def envelope_def
        PaginatedIteratorConfig.truncate_def Let_def Object_prototype_def)
  have g1: "js_get (envelope [JNum 1] (JStr (ascii ''a b''))) (nextField ?c1) = Inr (Plain (JStr (ascii ''a b'')))"
    by (simp add: fromGetUsingNext_def fromGetUsingSkip_def fromUsing_def http_stub_def
        encodeURIComponent_def ascii_def is_leading_def is_trailing_def code_point_of_def
        encode_code_point_def unreserved_def utf8_def percent_byte_def hex_digit_def
        int_to_string_def nat_to_string.simps digit_char_def
        PaginatedIterator_next_def asyncIterator_def logged_def envelope_def
        PaginatedIteratorConfig.truncate_def Let_def Object_prototype_def)
  have s1: "PaginatedIterator_next ((asyncIterator ?T1)\<lparr>nextQuery := Plain JUndefined\<rparr>) ((), [])
      = (Inr \<lparr>ir_value = Plain (JArr [JNum 1]), ir_done = False\<rparr>,
         (asyncIterator ?T1)\<lparr>nextQuery := Plain (JStr (ascii ''a b''))\<rparr>, ((), [ascii ''/api/items'']))"
    by (simp add: fromGetUsingNext_def fromGetUsingSkip_def fromUsing_def http_stub_def
        encodeURIComponent_def ascii_def is_leading_def is_trailing_def code_point_of_def
        encode_code_point_def unreserved_def utf8_def percent_byte_def hex_digit_def
        int_to_string_def nat_to_string.simps digit_char_def
        PaginatedIterator_next_def asyncIterator_def logged_def envelope_def
        PaginatedIteratorConfig.truncate_def Let_def Object_prototype_def)
  obtain r1 j1 wl1 where t1: "PaginatedIterator_next ((asyncIterator ?T1)\<lparr>nextQuery := Plain (JStr (ascii ''a b''))\<rparr>)
      ((), [ascii ''/api/items'']) = (r1, j1, wl1)"
    by (rule prod_cases3)
  have e1: "ToString (Plain (JStr (ascii ''a b''))) = Inr (ascii ''a b'') \<and> encodeURIComponent (ascii ''a b'') = Inr (ascii ''a%20b'')"
    by (simp add: fromGetUsingNext_def fromGetUsingSkip_def fromUsing_def http_stub_def
        encodeURIComponent_def ascii_def is_leading_def is_trailing_def code_point_of_def
        encode_code_point_def unreserved_def utf8_def percent_byte_def hex_digit_def
        int_to_string_def nat_to_string.simps digit_char_def
        PaginatedIterator_next_def asyncIterator_def logged_def envelope_def
        PaginatedIteratorConfig.truncate_def Let_def Object_prototype_def)
  have v1: "snd wl1 = [ascii ''/api/items'', ascii ''/api/items?next=a%20b'']"
    using cursor_round_trip[OF b1 m1 f1 g1 s1 t1, of "ascii ''a b''" "ascii ''a%20b''"] e1
    by (simp add: ascii_def)
  let ?h2 = "logged (http_stub [(ascii ''/api/items?top=1'', envelope [JNum 1] (JNum 20))])
      :: jsstring \<Rightarrow> (unit \<times> jsstring list, envelope) async"
  let ?c2 = "\<lparr>nextField = ascii ''next'', dataField = ascii ''data'', queryParameter = ascii ''$skip''\<rparr>"
  let ?T2 = "projr (fromUsing ?h2 (ascii ''/api/items?top=1'') ?c2)"
  have b2: "fromUsing ?h2 (ascii ''/api/items?top=1'') ?c2 = Inr ?T2"
    by (simp add: fromGetUsingNext_def fromGetUsingSkip_def fromUsing_def http_stub_def
        encodeURIComponent_def ascii_def is_leading_def is_trailing_def code_point_of_def
        encode_code_point_def unreserved_def utf8_def percent_byte_def hex_digit_def
        int_to_string_def nat_to_string.simps digit_char_def
        PaginatedIterator_next_def asyncIterator_def logged_def envelope_def
        PaginatedIteratorConfig.truncate_def Let_def Object_prototype_def)
  have m2: "encodeURIComponent (queryParameter ?c2) = Inr (ascii ''%24skip'')"
    by (simp add: fromGetUsingNext_def fromGetUsingSkip_def fromUsing_def http_stub_def
        encodeURIComponent_def ascii_def is_leading_def is_trailing_def code_point_of_def
        encode_code_point_def unreserved_def utf8_def percent_byte_def hex_digit_def
        int_to_string_def nat_to_string.simps digit_char_def
        PaginatedIterator_next_def asyncIterator_def logged_def envelope_def
        PaginatedIteratorConfig.truncate_def Let_def Object_prototype_def)
  have f2: "nextPage ?T2 (Plain JUndefined) ((), [])
      = (Inr (envelope [JNum 1] (JNum 20)), ((), [ascii ''/api/items?top=1'']))"
    by (simp add: fromGetUsingNext_def fromGetUsingSkip_def fromUsing_def http_stub_def
        encodeURIComponent_def ascii_def is_leading_def is_trailing_def code_point_of_def
        encode_code_point_def unreserved_def utf8_def percent_byte_def hex_digit_def
        int_to_string_def nat_to_string.simps digit_char_def
        PaginatedIterator_next_def asyncIterator_def logged_def envelope_def
        PaginatedIteratorConfig.truncate_def Let_def Object_prototype_def)
  have g2: "js_get (envelope [JNum 1] (JNum 20)) (nextField ?c2) = Inr (Plain (JNum 20))"
    by (simp add: fromGetUsingNext_def fromGetUsingSkip_def fromUsing_def http_stub_def
        encodeURIComponent_def ascii_def is_leading_def is_trailing_def code_point_of_def
        encode_code_point_def unreserved_def utf8_def percent_byte_def hex_digit_def
        int_to_string_def nat_to_string.simps digit_char_def
        PaginatedIterator_next_def asyncIterator_def logged_def envelope_def
        PaginatedIteratorConfig.truncate_def Let_def Object_prototype_def)
  have s2: "PaginatedIterator_next ((asyncIterator ?T2)\<lparr>nextQuery := Plain JUndefined\<rparr>) ((), [])
      = (Inr \<lparr>ir_value = Plain (JArr [JNum 1]), ir_done = False\<rparr>,
         (asyncIterator ?T2)\<lparr>nextQuery := Plain (JNum 20)\<rparr>, ((), [ascii ''/api/items?top=1'']))"
    by (simp add: fromGetUsingNext_def fromGetUsingSkip_def fromUsing_def http_stub_def
        encodeURIComponent_def ascii_def is_leading_def is_trailing_def code_point_of_def
        encode_code_point_def unreserved_def utf8_def percent_byte_def hex_digit_def
        int_to_string_def nat_to_string.simps digit_char_def
        PaginatedIterator_next_def asyncIterator_def logged_def envelope_def
        PaginatedIteratorConfig.truncate_def Let_def Object_prototype_def)
  obtain r2 j2 wl2 where t2: "PaginatedIterator_next ((asyncIterator ?T2)\<lparr>nextQuery := Plain (JNum 20)\<rparr>)
      ((), [ascii ''/api/items?top=1'']) = (r2, j2, wl2)"
    by (rule prod_cases3)
  have e2: "ToString (Plain (JNum 20)) = Inr (ascii ''20'') \<and> encodeURIComponent (ascii ''20'') = Inr (ascii ''20'')"
    by (simp add: fromGetUsingNext_def fromGetUsingSkip_def fromUsing_def http_stub_def
        encodeURIComponent_def ascii_def is_leading_def is_trailing_def code_point_of_def
        encode_code_point_def unreserved_def utf8_def percent_byte_def hex_digit_def
        int_to_string_def nat_to_string.simps digit_char_def
        PaginatedIterator_next_def asyncIterator_def logged_def envelope_def
        PaginatedIteratorConfig.truncate_def Let_def Object_prototype_def)
  have v2: "snd wl2 = [ascii ''/api/items?top=1'', ascii ''/api/items?top=1&%24skip=20'']"
    using cursor_round_trip[OF b2 m2 f2 g2 s2 t2, of "ascii ''20''" "ascii ''20''"] e2
    by (simp add: ascii_def)
  let ?h3 = "logged (http_stub [(ascii ''/api/items'', envelope [JNum 1] (JStr [0x20AC, 0xD83D, 0xDE00]))])
      :: jsstring \<Rightarrow> (unit \<times> jsstring list, envelope) async"
  let ?c3 = "\<lparr>nextField = ascii ''next'', dataField = ascii ''data'', queryParameter = ascii ''next''\<rparr>"
  let ?T3 = "projr (fromUsing ?h3 (ascii ''/api/items'') ?c3)"
  have b3: "fromUsing ?h3 (ascii ''/api/items'') ?c3 = Inr ?T3"
    by (simp add: fromGetUsingNext_def fromGetUsingSkip_def fromUsing_def http_stub_def
        encodeURIComponent_def ascii_def is_leading_def is_trailing_def code_point_of_def
        encode_code_point_def unreserved_def utf8_def percent_byte_def hex_digit_def
        int_to_string_def nat_to_string.simps digit_char_def
        PaginatedIterator_next_def asyncIterator_def logged_def envelope_def
        PaginatedIteratorConfig.truncate_def Let_def Object_prototype_def)
  have m3: "encodeURIComponent (queryParameter ?c3) = Inr (ascii ''next'')"
    by (simp add: fromGetUsingNext_def fromGetUsingSkip_def fromUsing_def http_stub_def
        encodeURIComponent_def ascii_def is_leading_def is_trailing_def code_point_of_def
        encode_code_point_def unreserved_def utf8_def percent_byte_def hex_digit_def
        int_to_string_def nat_to_string.simps digit_char_def
        PaginatedIterator_next_def asyncIterator_def logged_def envelope_def
        PaginatedIteratorConfig.truncate_def Let_def Object_prototype_def)
  have f3: "nextPage ?T3 (Plain JUndefined) ((), [])
      = (Inr (envelope [JNum 1] (JStr [0x20AC, 0xD83D, 0xDE00])), ((), [ascii ''/api/items'']))"
    by (simp add: fromGetUsingNext_def fromGetUsingSkip_def fromUsing_def http_stub_def
        encodeURIComponent_def ascii_def is_leading_def is_trailing_def code_point_of_def
        encode_code_point_def unreserved_def utf8_def percent_byte_def hex_digit_def
        int_to_string_def nat_to_string.simps digit_char_def
        PaginatedIterator_next_def asyncIterator_def logged_def envelope_def
        PaginatedIteratorConfig.truncate_def Let_def Object_prototype_def)
  have g3: "js_get (envelope [JNum 1] (JStr [0x20AC, 0xD83D, 0xDE00])) (nextField ?c3) = Inr (Plain (JStr [0x20AC, 0xD83D, 0xDE00]))"
    by (simp add: fromGetUsingNext_def fromGetUsingSkip_def fromUsing_def http_stub_def
        encodeURIComponent_def ascii_def is_leading_def is_trailing_def code_point_of_def
        encode_code_point_def unreserved_def utf8_def percent_byte_def hex_digit_def
        int_to_string_def nat_to_string.simps digit_char_def
        PaginatedIterator_next_def asyncIterator_def logged_def envelope_def
        PaginatedIteratorConfig.truncate_def Let_def Object_prototype_def)
  have s3: "PaginatedIterator_next ((asyncIterator ?T3)\<lparr>nextQuery := Plain JUndefined\<rparr>) ((), [])
      = (Inr \<lparr>ir_value = Plain (JArr [JNum 1]), ir_done = False\<rparr>,
         (asyncIterator ?T3)\<lparr>nextQuery := Plain (JStr [0x20AC, 0xD83D, 0xDE00])\<rparr>, ((), [ascii ''/api/items'']))"
    by (simp add: fromGetUsingNext_def fromGetUsingSkip_def fromUsing_def http_stub_def
        encodeURIComponent_def ascii_def is_leading_def is_trailing_def code_point_of_def
        encode_code_point_def unreserved_def utf8_def percent_byte_def hex_digit_def
        int_to_string_def nat_to_string.simps digit_char_def
        PaginatedIterator_next_def asyncIterator_def logged_def envelope_def
        PaginatedIteratorConfig.truncate_def Let_def Object_prototype_def)
  obtain r3 j3 wl3 where t3: "PaginatedIterator_next ((asyncIterator ?T3)\<lparr>nextQuery := Plain (JStr [0x20AC, 0xD83D, 0xDE00])\<rparr>)
      ((), [ascii ''/api/items'']) = (r3, j3, wl3)"
    by (rule prod_cases3)
  have e3: "ToString (Plain (JStr [0x20AC, 0xD83D, 0xDE00])) = Inr ([0x20AC, 0xD83D, 0xDE00]) \<and> encodeURIComponent ([0x20AC, 0xD83D, 0xDE00]) = Inr (ascii ''%E2%82%AC%F0%9F%98%80'')"
    by (simp add: fromGetUsingNext_def fromGetUsingSkip_def fromUsing_def http_stub_def
        encodeURIComponent_def ascii_def is_leading_def is_trailing_def code_point_of_def
        encode_code_point_def unreserved_def utf8_def percent_byte_def hex_digit_def
        int_to_string_def nat_to_string.simps digit_char_def
        PaginatedIterator_next_def asyncIterator_def logged_def envelope_def
        PaginatedIteratorConfig.truncate_def Let_def Object_prototype_def)
  have v3: "snd wl3 = [ascii ''/api/items'', ascii ''/api/items?next=%E2%82%AC%F0%9F%98%80'']"
    using cursor_round_trip[OF b3 m3 f3 g3 s3 t3, of "[0x20AC, 0xD83D, 0xDE00]" "ascii ''%E2%82%AC%F0%9F%98%80''"] e3
    by (simp add: ascii_def)
  let ?h4 = "logged (http_stub [(ascii ''/api/items'', envelope [JNum 1] (JNum 0))])
      :: jsstring \<Rightarrow> (unit \<times> jsstring list, envelope) async"
  let ?c4 = "\<lparr>nextField = ascii ''next'', dataField = ascii ''data'', queryParameter = ascii ''next''\<rparr>"
  let ?T4 = "projr (fromUsing ?h4 (ascii ''/api/items'') ?c4)"
  have b4: "fromUsing ?h4 (ascii ''/api/items'') ?c4 = Inr ?T4"
    by (simp add: fromGetUsingNext_def fromGetUsingSkip_def fromUsing_def http_stub_def
        encodeURIComponent_def ascii_def is_leading_def is_trailing_def code_point_of_def
        encode_code_point_def unreserved_def utf8_def percent_byte_def hex_digit_def
        int_to_string_def nat_to_string.simps digit_char_def
        PaginatedIterator_next_def asyncIterator_def logged_def envelope_def
        PaginatedIteratorConfig.truncate_def Let_def Object_prototype_def)
  have m4: "encodeURIComponent (queryParameter ?c4) = Inr (ascii ''next'')"
    by (simp add: fromGetUsingNext_def fromGetUsingSkip_def fromUsing_def http_stub_def
        encodeURIComponent_def ascii_def is_leading_def is_trailing_def code_point_of_def
        encode_code_point_def unreserved_def utf8_def percent_byte_def hex_digit_def
        int_to_string_def nat_to_string.simps digit_char_def
        PaginatedIterator_next_def asyncIterator_def logged_def envelope_def
        PaginatedIteratorConfig.truncate_def Let_def Object_prototype_def)
  have f4: "nextPage ?T4 (Plain JUndefined) ((), [])
      = (Inr (envelope [JNum 1] (JNum 0)), ((), [ascii ''/api/items'']))"
    by (simp add: fromGetUsingNext_def fromGetUsingSkip_def fromUsing_def http_stub_def
        encodeURIComponent_def ascii_def is_leading_def is_trailing_def code_point_of_def
        encode_code_point_def unreserved_def utf8_def percent_byte_def hex_digit_def
        int_to_string_def nat_to_string.simps digit_char_def
        PaginatedIterator_next_def asyncIterator_def logged_def envelope_def
        PaginatedIteratorConfig.truncate_def Let_def Object_prototype_def)
  have g4: "js_get (envelope [JNum 1] (JNum 0)) (nextField ?c4) = Inr (Plain (JNum 0))"
    by (simp add: fromGetUsingNext_def fromGetUsingSkip_def fromUsing_def http_stub_def
        encodeURIComponent_def ascii_def is_leading_def is_trailing_def code_point_of_def
        encode_code_point_def unreserved_def utf8_def percent_byte_def hex_digit_def
        int_to_string_def nat_to_string.simps digit_char_def
        PaginatedIterator_next_def asyncIterator_def logged_def envelope_def
        PaginatedIteratorConfig.truncate_def Let_def Object_prototype_def)
  have s4: "PaginatedIterator_next ((asyncIterator ?T4)\<lparr>nextQuery := Plain JUndefined\<rparr>) ((), [])
      = (Inr \<lparr>ir_value = Plain (JArr [JNum 1]), ir_done = False\<rparr>,
         (asyncIterator ?T4)\<lparr>nextQuery := Plain (JNum 0)\<rparr>, ((), [ascii ''/api/items'']))"
    by (simp add: fromGetUsingNext_def fromGetUsingSkip_def fromUsing_def http_stub_def
        encodeURIComponent_def ascii_def is_leading_def is_trailing_def code_point_of_def
        encode_code_point_def unreserved_def utf8_def percent_byte_def hex_digit_def
        int_to_string_def nat_to_string.simps digit_char_def
        PaginatedIterator_next_def asyncIterator_def logged_def envelope_def
        PaginatedIteratorConfig.truncate_def Let_def Object_prototype_def)
  obtain r4 j4 wl4 where t4: "PaginatedIterator_next ((asyncIterator ?T4)\<lparr>nextQuery := Plain (JNum 0)\<rparr>)
      ((), [ascii ''/api/items'']) = (r4, j4, wl4)"
    by (rule prod_cases3)
  have v4: "snd wl4 = [ascii ''/api/items'', ascii ''/api/items'']"
    using cursor_round_trip[OF b4 m4 f4 g4 s4 t4]
    by simp
  let ?h5 = "logged (http_stub [(ascii ''/api/items'', envelope [JNum 1] (JStr [0xD83D]))])
      :: jsstring \<Rightarrow> (unit \<times> jsstring list, envelope) async"
  let ?c5 = "\<lparr>nextField = ascii ''next'', dataField = ascii ''data'', queryParameter = ascii ''next''\<rparr>"
  let ?T5 = "projr (fromUsing ?h5 (ascii ''/api/items'') ?c5)"
  have b5: "fromUsing ?h5 (ascii ''/api/items'') ?c5 = Inr ?T5"
    by (simp add: fromGetUsingNext_def fromGetUsingSkip_def fromUsing_def http_stub_def
        encodeURIComponent_def ascii_def is_leading_def is_trailing_def code_point_of_def
        encode_code_point_def unreserved_def utf8_def percent_byte_def hex_digit_def
        int_to_string_def nat_to_string.simps digit_char_def
        PaginatedIterator_next_def asyncIterator_def logged_def envelope_def
        PaginatedIteratorConfig.truncate_def Let_def Object_prototype_def)
  have m5: "encodeURIComponent (queryParameter ?c5) = Inr (ascii ''next'')"
    by (simp add: fromGetUsingNext_def fromGetUsingSkip_def fromUsing_def http_stub_def
        encodeURIComponent_def ascii_def is_leading_def is_trailing_def code_point_of_def
        encode_code_point_def unreserved_def utf8_def percent_byte_def hex_digit_def
        int_to_string_def nat_to_string.simps digit_char_def
        PaginatedIterator_next_def asyncIterator_def logged_def envelope_def
        PaginatedIteratorConfig.truncate_def Let_def Object_prototype_def)
  have f5: "nextPage ?T5 (Plain JUndefined) ((), [])
      = (Inr (envelope [JNum 1] (JStr [0xD83D])), ((), [ascii ''/api/items'']))"
    by (simp add: fromGetUsingNext_def fromGetUsingSkip_def fromUsing_def http_stub_def
        encodeURIComponent_def ascii_def is_leading_def is_trailing_def code_point_of_def
        encode_code_point_def unreserved_def utf8_def percent_byte_def hex_digit_def
        int_to_string_def nat_to_string.simps digit_char_def
        PaginatedIterator_next_def asyncIterator_def logged_def envelope_def
        PaginatedIteratorConfig.truncate_def Let_def Object_prototype_def)
  have g5: "js_get (envelope [JNum 1] (JStr [0xD83D])) (nextField ?c5) = Inr (Plain (JStr [0xD83D]))"
    by (simp add: fromGetUsingNext_def fromGetUsingSkip_def fromUsing_def http_stub_def
        encodeURIComponent_def ascii_def is_leading_def is_trailing_def code_point_of_def
        encode_code_point_def unreserved_def utf8_def percent_byte_def hex_digit_def
        int_to_string_def nat_to_string.simps digit_char_def
        PaginatedIterator_next_def asyncIterator_def logged_def envelope_def
        PaginatedIteratorConfig.truncate_def Let_def Object_prototype_def)
  have s5: "PaginatedIterator_next ((asyncIterator ?T5)\<lparr>nextQuery := Plain JUndefined\<rparr>) ((), [])
      = (Inr \<lparr>ir_value = Plain (JArr [JNum 1]), ir_done = False\<rparr>,
         (asyncIterator ?T5)\<lparr>nextQuery := Plain (JStr [0xD83D])\<rparr>, ((), [ascii ''/api/items'']))"
    by (simp add: fromGetUsingNext_def fromGetUsingSkip_def fromUsing_def http_stub_def
        encodeURIComponent_def ascii_def is_leading_def is_trailing_def code_point_of_def
        encode_code_point_def unreserved_def utf8_def percent_byte_def hex_digit_def
        int_to_string_def nat_to_string.simps digit_char_def
        PaginatedIterator_next_def asyncIterator_def logged_def envelope_def
        PaginatedIteratorConfig.truncate_def Let_def Object_prototype_def)
  obtain r5 j5 wl5 where t5: "PaginatedIterator_next ((asyncIterator ?T5)\<lparr>nextQuery := Plain (JStr [0xD83D])\<rparr>)
      ((), [ascii ''/api/items'']) = (r5, j5, wl5)"
    by (rule prod_cases3)
  have e5: "ToString (Plain (JStr [0xD83D])) = Inr ([0xD83D]) \<and> lone_surrogate ([0xD83D])"
    by (simp add: fromGetUsingNext_def fromGetUsingSkip_def fromUsing_def http_stub_def
        encodeURIComponent_def ascii_def is_leading_def is_trailing_def code_point_of_def
        encode_code_point_def unreserved_def utf8_def percent_byte_def hex_digit_def
        int_to_string_def nat_to_string.simps digit_char_def
        PaginatedIterator_next_def asyncIterator_def logged_def envelope_def
        PaginatedIteratorConfig.truncate_def Let_def Object_prototype_def)
  have v5: "r5 = Inl URIError \<and> wl5 = ((), [ascii ''/api/items''])"
    using cursor_round_trip[OF b5 m5 f5 g5 s5 t5, of "[0xD83D]"] e5
    by (simp add: is_leading_def is_trailing_def)
  show ?thesis
    using t1 v1 t2 v2 t3 v3 t4 v4 t5 v5
    by (simp add: fromGetUsingNext_def fromGetUsingSkip_def)
qed

text \<open>As C5 is stated, for every cursor value, it fails on the empty string: the request
  that follows goes to the bare \<open>basePath\<close>, without the parameter.\<close>

theorem empty_cursor_is_not_sent_counterexample:
  "yields (asyncIterator (projr (fromGetUsingNext
             (logged (http_stub [(ascii ''/api/items'', envelope [JNum 1] (JStr []))])) (ascii ''/api/items''))))
          ((), []) [[JNum 1], [JNum 1]]
     = Some ((asyncIterator (projr (fromGetUsingNext
                (logged (http_stub [(ascii ''/api/items'', envelope [JNum 1] (JStr []))])) (ascii ''/api/items''))))
               \<lparr>nextQuery := Plain (JStr [])\<rparr>,
             ((), [ascii ''/api/items'', ascii ''/api/items'']))
   \<and> [ascii ''/api/items'', ascii ''/api/items''] \<noteq> [ascii ''/api/items'', ascii ''/api/items?next='']"
  by (simp add: fromGetUsingNext_def fromGetUsingSkip_def fromUsing_def http_stub_def
        encodeURIComponent_def ascii_def is_leading_def is_trailing_def code_point_of_def
        encode_code_point_def unreserved_def utf8_def percent_byte_def hex_digit_def
        int_to_string_def nat_to_string.simps digit_char_def
        PaginatedIterator_next_def asyncIterator_def logged_def envelope_def
        PaginatedIteratorConfig.truncate_def Let_def Object_prototype_def)

text \<open>
  C6. Let the iterator yield the pages \<open>ps\<close> and let the fetcher then fail with \<open>e\<close>. If the
  operation is still running at that point (the limit has not been reached, no element
  has satisfied the predicate), then \<open>all\<close>, \<open>flatMapNotNull\<close>, \<open>findFirst\<close> and
  \<open>findFirstAsync\<close> all reject with \<open>e\<close> itself; nothing of what was accumulated from \<open>ps\<close> is
  returned, and the failed call is the last one made: \<open>length ps + 1\<close> calls.
\<close>

theorem fetch_failure_rejects_aggregate:
  assumes "yields (asyncIterator \<lparr>nextPage = logged f, config = cfg\<rparr>) (w, []) ps = Some (it1, (w1, calls))"
    and "f (nextQuery it1) w1 = (Inl e, w2)"
    and "\<forall>x\<in>set (concat ps). (\<forall>w. mapper x w = (Inr (m x), w))
           \<and> \<not> p x \<and> (\<forall>w. predicate x w = (Inr (p x), w)) \<and> q x = Inr (p x)"
    and "\<not> limit_reached limit (filter truthy (map m (concat ps)))"
  shows "all_pages \<lparr>nextPage = logged f, config = cfg\<rparr> (w, [])
           = Some (Inl e, (w2, calls @ [nextQuery it1]))
       \<and> flatMapNotNull \<lparr>nextPage = logged f, config = cfg\<rparr> mapper limit (w, [])
           = Some (Inl e, (w2, calls @ [nextQuery it1]))
       \<and> findFirst \<lparr>nextPage = logged f, config = cfg\<rparr> q (w, [])
           = Some (Inl e, (w2, calls @ [nextQuery it1]))
       \<and> findFirstAsync \<lparr>nextPage = logged f, config = cfg\<rparr> predicate (w, [])
           = Some (Inl e, (w2, calls @ [nextQuery it1]))
       \<and> length (calls @ [nextQuery it1]) = length ps + 1"
proof -
  let ?P = "\<lparr>nextPage = logged f, config = cfg\<rparr>"
  let ?q = "\<lambda>it w1. case q it of Inl e \<Rightarrow> (Inl e, w1) | Inr b \<Rightarrow> Promise_resolve b w1"
  have "it_nextPage it1 = logged f"
    using yields_from_iterable[OF assms(1)] by simp
  then have "it_nextPage it1 (nextQuery it1) (w1, calls) = (Inl e, (w2, calls @ [nextQuery it1]))"
    using assms(2) by (simp add: logged_def)
  then have n: "PaginatedIterator_next it1 (w1, calls) = (Inl e, it1, (w2, calls @ [nextQuery it1]))"
    by (rule next_fetch_fails)
  have mn: "\<forall>x\<in>set (concat ps). \<forall>w. mapper x w = (Inr (m x), w)"
    and idn: "\<forall>x\<in>set (concat ps). \<forall>w. (\<lambda>it. Promise_resolve it) x w = (Inr ((\<lambda>x. x) x), w)"
    and pn: "\<forall>x\<in>set (concat ps). \<forall>w. predicate x w = (Inr False, w)"
    and qn: "\<forall>x\<in>set (concat ps). \<forall>w. ?q x w = (Inr False, w)"
    using assms(3) by (auto simp: Promise_resolve_def)
  have nl: "\<not> limit_reached None (filter truthy (map (\<lambda>x. x) (concat ps)))"
    by (simp add: limit_reached_def)
  show ?thesis
    using flatMapNotNull_next_fails[OF assms(1) n mn assms(4)]
      flatMapNotNull_next_fails[OF assms(1) n idn nl]
      findFirstAsync_next_fails[OF assms(1) n pn]
      findFirstAsync_next_fails[OF assms(1) n qn]
      logged_call_count[OF assms(1) n]
    by (simp add: all_pages_def findFirst_def)
qed

theorem fetch_failure_rejects_aggregate_witness:
  "all_pages \<lparr>nextPage = logged (stub [Inr (envelope [JStr (ascii ''A'')] (JStr (ascii ''c1''))), Inl (Thrown (JStr (ascii ''boom'')))]),
               config = default_config\<rparr> (0, [])
     = Some (Inl (Thrown (JStr (ascii ''boom''))), (2, [Plain JUndefined, Plain (JStr (ascii ''c1''))]))
   \<and> flatMapNotNull \<lparr>nextPage = logged (stub [Inr (envelope [JStr (ascii ''A'')] (JStr (ascii ''c1''))), Inl (Thrown (JStr (ascii ''boom'')))]),
               config = default_config\<rparr> (\<lambda>it. Promise_resolve it) (Some 5) (0, [])
     = Some (Inl (Thrown (JStr (ascii ''boom''))), (2, [Plain JUndefined, Plain (JStr (ascii ''c1''))]))
   \<and> findFirst \<lparr>nextPage = logged (stub [Inr (envelope [JStr (ascii ''A'')] (JStr (ascii ''c1''))), Inl (Thrown (JStr (ascii ''boom'')))]),
               config = default_config\<rparr> (\<lambda>x. Inr (x = JStr (ascii ''Z''))) (0, [])
     = Some (Inl (Thrown (JStr (ascii ''boom''))), (2, [Plain JUndefined, Plain (JStr (ascii ''c1''))]))
   \<and> findFirstAsync \<lparr>nextPage = logged (stub [Inr (envelope [JStr (ascii ''A'')] (JStr (ascii ''c1''))), Inl (Thrown (JStr (ascii ''boom'')))]),
               config = default_config\<rparr> (\<lambda>x. Promise_resolve (x = JStr (ascii ''Z''))) (0, [])
     = Some (Inl (Thrown (JStr (ascii ''boom''))), (2, [Plain JUndefined, Plain (JStr (ascii ''c1''))]))"
proof -
  let ?f = "stub [Inr (envelope [JStr (ascii ''A'')] (JStr (ascii ''c1''))), Inl (Thrown (JStr (ascii ''boom'')))]"
  let ?it = "asyncIterator \<lparr>nextPage = logged ?f, config = default_config\<rparr>"
  let ?p = "\<lambda>x. x = JStr (ascii ''Z'')"
  let ?pred = "(\<lambda>x. Promise_resolve (x = JStr (ascii ''Z''))) :: jsval \<Rightarrow> (nat \<times> property list, bool) async"
  let ?q = "(\<lambda>x. Inr (x = JStr (ascii ''Z''))) :: jsval \<Rightarrow> jserror + bool"
  let ?mapper = "(\<lambda>it. Promise_resolve it) :: jsval \<Rightarrow> (nat \<times> property list, jsval) async"
  have y: "yields ?it (0, []) [[JStr (ascii ''A'')]] = Some (?it\<lparr>nextQuery := Plain (JStr (ascii ''c1''))\<rparr>, (1, [Plain JUndefined]))"
    by (simp add: PaginatedIterator_next_def asyncIterator_def logged_def stub_def
        default_config_def envelope_def PaginatedIteratorConfig.truncate_def Let_def Object_prototype_def)
  have f: "?f (nextQuery (?it\<lparr>nextQuery := Plain (JStr (ascii ''c1''))\<rparr>)) 1 = (Inl (Thrown (JStr (ascii ''boom''))), 2)"
    by (simp add: PaginatedIterator_next_def asyncIterator_def logged_def stub_def
        default_config_def envelope_def PaginatedIteratorConfig.truncate_def Let_def Object_prototype_def)
  have s: "\<forall>x\<in>set (concat [[JStr (ascii ''A'')]]). (\<forall>w. ?mapper x w = (Inr ((\<lambda>x. x) x), w))
             \<and> \<not> ?p x \<and> (\<forall>w. ?pred x w = (Inr (?p x), w)) \<and> ?q x = Inr (?p x)"
    by (simp add: Promise_resolve_def)
  have l: "\<not> limit_reached (Some 5) (filter truthy (map (\<lambda>x. x) (concat [[JStr (ascii ''A'')]])))"
    by (simp add: limit_reached_def)
  show ?thesis
    using fetch_failure_rejects_aggregate[OF y f s l] by simp
qed

text \<open>
  C7 (amended). When the fetcher answers with an envelope on which the read of the data
  field gives \<open>undefined\<close> or \<open>null\<close>, reading \<open>data.length\<close> throws: the step of the iterator
  rejects with a \<open>TypeError\<close>, and so do \<open>all\<close>, \<open>flatMapNotNull\<close>, \<open>findFirst\<close> and
  \<open>findFirstAsync\<close> when they get to that envelope. The page is not taken for an empty one.
  The read gives \<open>undefined\<close> exactly when the field is an own property holding \<open>undefined\<close>,
  or is no own property and does not name a member of \<open>Object.prototype\<close>; a name such as
  \<open>toString\<close> gives the inherited member, which is then the data.
\<close>

theorem absent_data_field_raises_TypeError:
  assumes "yields (asyncIterator this) w ps = Some (it1, w1)"
    and "nextPage this (nextQuery it1) w1 = (Inr env, w2)"
    and "js_get env (dataField (config this)) = Inr d"
    and "d = Plain JUndefined \<or> d = Plain JNull"
    and "\<forall>x\<in>set (concat ps). (\<forall>w. mapper x w = (Inr (m x), w))
           \<and> \<not> p x \<and> (\<forall>w. predicate x w = (Inr (p x), w)) \<and> q x = Inr (p x)"
    and "\<not> limit_reached limit (filter truthy (map m (concat ps)))"
  shows "fst (PaginatedIterator_next it1 w1) = Inl TypeError
       \<and> all_pages this w = Some (Inl TypeError, w2)
       \<and> flatMapNotNull this mapper limit w = Some (Inl TypeError, w2)
       \<and> findFirst this q w = Some (Inl TypeError, w2)
       \<and> findFirstAsync this predicate w = Some (Inl TypeError, w2)
       \<and> (js_get (EObject kvs) field = Inr (Plain JUndefined))
           = (map_of kvs field = Some JUndefined
              \<or> map_of kvs field = None \<and> map_of Object_prototype field = None)"
proof -
  let ?q = "\<lambda>it w1. case q it of Inl e \<Rightarrow> (Inl e, w1) | Inr b \<Rightarrow> Promise_resolve b w1"
  note i = yields_from_iterable[OF assms(1)]
  obtain c where c: "js_get env (nextField (it_config it1)) = Inr c"
    using js_get_defined[OF assms(3)] by blast
  have n: "PaginatedIterator_next it1 w1 = (Inl TypeError, it1\<lparr>nextQuery := c\<rparr>, w2)"
    using assms(2,3,4) i c by (intro next_no_data[where env = env and d = d]) simp_all
  have mn: "\<forall>x\<in>set (concat ps). \<forall>w. mapper x w = (Inr (m x), w)"
    and idn: "\<forall>x\<in>set (concat ps). \<forall>w. (\<lambda>it. Promise_resolve it) x w = (Inr ((\<lambda>x. x) x), w)"
    and pn: "\<forall>x\<in>set (concat ps). \<forall>w. predicate x w = (Inr False, w)"
    and qn: "\<forall>x\<in>set (concat ps). \<forall>w. ?q x w = (Inr False, w)"
    using assms(5) by (auto simp: Promise_resolve_def)
  have nl: "\<not> limit_reached None (filter truthy (map (\<lambda>x. x) (concat ps)))"
    by (simp add: limit_reached_def)
  have g: "(js_get (EObject kvs) field = Inr (Plain JUndefined))
           = (map_of kvs field = Some JUndefined
              \<or> map_of kvs field = None \<and> map_of Object_prototype field = None)"
    by (auto split: option.splits)
  show ?thesis
    using flatMapNotNull_next_fails[OF assms(1) n mn assms(6)]
      flatMapNotNull_next_fails[OF assms(1) n idn nl]
      findFirstAsync_next_fails[OF assms(1) n pn]
      findFirstAsync_next_fails[OF assms(1) n qn] n g
    by (simp add: all_pages_def findFirst_def)
qed

theorem absent_data_field_raises_TypeError_witness:
  "js_get (EObject [(ascii ''next'', JNull)]) (ascii ''data'') = Inr (Plain JUndefined)
   \<and> fst (PaginatedIterator_next
        (asyncIterator \<lparr>nextPage = stub [Inr (EObject [(ascii ''next'', JNull)])], config = default_config\<rparr>) 0)
       = Inl TypeError
   \<and> all_pages \<lparr>nextPage = stub [Inr (EObject [(ascii ''next'', JNull)])], config = default_config\<rparr> 0
       = Some (Inl TypeError, 1)
   \<and> flatMapNotNull \<lparr>nextPage = stub [Inr (EObject [(ascii ''next'', JNull)])], config = default_config\<rparr>
        (\<lambda>it. Promise_resolve it) (Some 1) 0
       = Some (Inl TypeError, 1)
   \<and> findFirst \<lparr>nextPage = stub [Inr (EObject [(ascii ''next'', JNull)])], config = default_config\<rparr>
        (\<lambda>x. Inr (x = JStr (ascii ''Z''))) 0
       = Some (Inl TypeError, 1)
   \<and> findFirstAsync \<lparr>nextPage = stub [Inr (EObject [(ascii ''next'', JNull)])], config = default_config\<rparr>
        (\<lambda>x. Promise_resolve (x = JStr (ascii ''Z''))) 0
       = Some (Inl TypeError, 1)"
proof -
  let ?P = "\<lparr>nextPage = stub [Inr (EObject [(ascii ''next'', JNull)])], config = default_config\<rparr>"
  let ?p = "\<lambda>x. x = JStr (ascii ''Z'')"
  let ?pred = "(\<lambda>x. Promise_resolve (x = JStr (ascii ''Z''))) :: jsval \<Rightarrow> (nat, bool) async"
  let ?q = "(\<lambda>x. Inr (x = JStr (ascii ''Z''))) :: jsval \<Rightarrow> jserror + bool"
  let ?mapper = "(\<lambda>it. Promise_resolve it) :: jsval \<Rightarrow> (nat, jsval) async"
  have y: "yields (asyncIterator ?P) 0 [] = Some (asyncIterator ?P, 0)" by simp
  have f: "nextPage ?P (nextQuery (asyncIterator ?P)) 0 = (Inr (EObject [(ascii ''next'', JNull)]), 1)"
    by (simp add: PaginatedIterator_next_def asyncIterator_def stub_def default_config_def
        envelope_def PaginatedIteratorConfig.truncate_def Let_def Object_prototype_def)
  have d: "js_get (EObject [(ascii ''next'', JNull)]) (dataField (config ?P)) = Inr (Plain JUndefined)"
    by (simp add: PaginatedIterator_next_def asyncIterator_def stub_def default_config_def
        envelope_def PaginatedIteratorConfig.truncate_def Let_def Object_prototype_def)
  have s: "\<forall>x\<in>set (concat []). (\<forall>w. ?mapper x w = (Inr ((\<lambda>x. x) x), w))
             \<and> \<not> ?p x \<and> (\<forall>w. ?pred x w = (Inr (?p x), w)) \<and> ?q x = Inr (?p x)"
    by simp
  have l: "\<not> limit_reached (Some 1) (filter truthy (map (\<lambda>x. x) (concat [])))"
    by (simp add: limit_reached_def)
  show ?thesis
    using absent_data_field_raises_TypeError[OF y f d _ s l] d
    by (simp add: default_config_def)
qed

text \<open>As C7 is stated, \<open>all()\<close> would return the empty list over an envelope without the
  data field; it rejects.\<close>

theorem absent_data_field_counterexample:
  "js_get (EObject [(ascii ''next'', JNull)]) (dataField default_config) = Inr (Plain JUndefined)
   \<and> all_pages \<lparr>nextPage = stub [Inr (EObject [(ascii ''next'', JNull)])], config = default_config\<rparr> 0
       = Some (Inl TypeError, 1)
   \<and> all_pages \<lparr>nextPage = stub [Inr (EObject [(ascii ''next'', JNull)])], config = default_config\<rparr> 0
       \<noteq> Some (Inr [], 1)"
  by (simp add: all_pages_def flatMapNotNull_def flatMapNotNull_body_def for_await.simps
      Promise_resolve_def limit_reached_def PaginatedIterator_next_def asyncIterator_def
      stub_def default_config_def envelope_def PaginatedIteratorConfig.truncate_def Let_def
      Object_prototype_def)

text \<open>A data field named after an inherited member is not absent: with the data field
  \<open>toString\<close> the data is the function \<open>Object.prototype.toString\<close>, whose \<open>length\<close> is \<open>0\<close>, so
  that the step reports the end of the pages and \<open>all()\<close> returns the empty list.\<close>

lemma inherited_member_is_the_data:
  "js_get (EObject [(ascii ''next'', JNull)]) (ascii ''toString'') = Inr (Inherited OP_toString)
   \<and> all_pages \<lparr>nextPage = stub [Inr (EObject [(ascii ''next'', JNull)])],
                 config = \<lparr>nextField = ascii ''next'', dataField = ascii ''toString'',
                            queryParameter = ascii ''next''\<rparr>\<rparr> 0
       = Some (Inr [], 1)"
  by (simp add: all_pages_def flatMapNotNull_def flatMapNotNull_body_def for_await.simps
      Promise_resolve_def limit_reached_def PaginatedIterator_next_def asyncIterator_def
      stub_def PaginatedIteratorConfig.truncate_def Let_def Object_prototype_def js_number_def)

text \<open>
  C8 (amended). Two iterators obtained from one iterable are two objects, each with the
  cursor \<open>undefined\<close>, and calls of \<open>next()\<close> on other iterators never change the object
  of this one. When, in addition, what the page fetcher answers depends on the cursor
  alone, an iterator observes the same results and the same cursors under every
  interleaving with calls on other iterators as it does when run alone.
\<close>

theorem iterators_do_not_share_cursor:
  assumes "asyncIterator_ref this h0 = (a, h1)"
    and "asyncIterator_ref this h1 = (b, h2)"
  shows "a \<noteq> b
       \<and> nextQuery (h2 ! a) = Plain JUndefined \<and> nextQuery (h2 ! b) = Plain JUndefined
       \<and> (\<forall>sched w. b \<notin> set sched \<longrightarrow> fst (snd (interleave sched h2 w)) ! b = h2 ! b)
       \<and> (\<forall>sched w. a \<notin> set sched \<longrightarrow> fst (snd (interleave sched h2 w)) ! a = h2 ! a)
       \<and> ((\<forall>c w w'. fst (nextPage this c w) = fst (nextPage this c w')) \<longrightarrow>
            (\<forall>sched w w'.
               observed b (fst (interleave sched h2 w))
                 = observed b (fst (interleave (filter (\<lambda>x. x = b) sched) h2 w'))
             \<and> observed a (fst (interleave sched h2 w))
                 = observed a (fst (interleave (filter (\<lambda>x. x = a) sched) h2 w'))))"
proof -
  have a: "a = length h0" and h1: "h1 = h0 @ [asyncIterator this]"
    and b: "b = Suc (length h0)" and h2: "h2 = h0 @ [asyncIterator this, asyncIterator this]"
    using assms by (auto simp: asyncIterator_ref_def)
  have ia: "h2 ! a = asyncIterator this" and ib: "h2 ! b = asyncIterator this"
    using a b h2 by (simp_all add: nth_append)
  have la: "a < length h2" and lb: "b < length h2" using a b h2 by simp_all
  have fr: "fst (snd (interleave sched h2 w)) ! x = h2 ! x" if "x \<notin> set sched" for sched w x
  proof -
    obtain obs h' w' where i: "interleave sched h2 w = (obs, h', w')" by (metis prod_cases3)
    show ?thesis using interleave_frame[OF i] that i by simp
  qed
  have ni: "observed x (fst (interleave sched h2 w))
              = observed x (fst (interleave (filter (\<lambda>y. y = x) sched) h2 w'))"
    if "\<forall>c w w'. fst (nextPage this c w) = fst (nextPage this c w')" and "x = a \<or> x = b"
    for sched w w' x
    using that ia ib la lb
    by (intro interleave_noninterference[where f = "nextPage this"]) (auto simp: asyncIterator_def)
  show ?thesis
    using a b ia ib fr ni by (simp add: asyncIterator_def)
qed

theorem iterators_do_not_share_cursor_witness:
  "observed 1 (fst (interleave [0, 1, 0, 1]
       [asyncIterator (projr (fromGetUsingNext (http_stub [(ascii ''/api/items'', envelope [JNum 1] (JStr (ascii ''2''))),
            (ascii ''/api/items?next=2'', envelope [JNum 2] JNull)]) (ascii ''/api/items''))),
        asyncIterator (projr (fromGetUsingNext (http_stub [(ascii ''/api/items'', envelope [JNum 1] (JStr (ascii ''2''))),
            (ascii ''/api/items?next=2'', envelope [JNum 2] JNull)]) (ascii ''/api/items'')))] ()))
     = observed 1 (fst (interleave [1, 1]
       [asyncIterator (projr (fromGetUsingNext (http_stub [(ascii ''/api/items'', envelope [JNum 1] (JStr (ascii ''2''))),
            (ascii ''/api/items?next=2'', envelope [JNum 2] JNull)]) (ascii ''/api/items''))),
        asyncIterator (projr (fromGetUsingNext (http_stub [(ascii ''/api/items'', envelope [JNum 1] (JStr (ascii ''2''))),
            (ascii ''/api/items?next=2'', envelope [JNum 2] JNull)]) (ascii ''/api/items'')))] ()))
   \<and> fst (snd (interleave [0, 0]
       [asyncIterator (projr (fromGetUsingNext (http_stub [(ascii ''/api/items'', envelope [JNum 1] (JStr (ascii ''2''))),
            (ascii ''/api/items?next=2'', envelope [JNum 2] JNull)]) (ascii ''/api/items''))),
        asyncIterator (projr (fromGetUsingNext (http_stub [(ascii ''/api/items'', envelope [JNum 1] (JStr (ascii ''2''))),
            (ascii ''/api/items?next=2'', envelope [JNum 2] JNull)]) (ascii ''/api/items'')))] ())) ! 1
     = asyncIterator (projr (fromGetUsingNext (http_stub [(ascii ''/api/items'', envelope [JNum 1] (JStr (ascii ''2''))),
            (ascii ''/api/items?next=2'', envelope [JNum 2] JNull)]) (ascii ''/api/items'')))"
proof -
  let ?P = "projr (fromGetUsingNext (http_stub [(ascii ''/api/items'', envelope [JNum 1] (JStr (ascii ''2''))),
            (ascii ''/api/items?next=2'', envelope [JNum 2] JNull)]) (ascii ''/api/items'')) :: unit PaginatedIterable"
  have a: "asyncIterator_ref ?P [] = (0, [asyncIterator ?P])"
    by (simp add: asyncIterator_ref_def)
  have b: "asyncIterator_ref ?P [asyncIterator ?P] = (1, [asyncIterator ?P, asyncIterator ?P])"
    by (simp add: asyncIterator_ref_def)
  have st: "\<forall>c w w'. fst (nextPage ?P c w) = fst (nextPage ?P c w')"
    by (simp add: fromGetUsingNext_def fromUsing_def http_stub_def Let_def encodeURIComponent_def
        ascii_def is_leading_def is_trailing_def code_point_of_def encode_code_point_def
        unreserved_def split: option.splits sum.splits)
  have ns: "(1::nat) \<notin> set [0, 0]" by simp
  have f: "filter (\<lambda>x. x = 1) [0, 1, 0, 1::nat] = [1, 1]" by simp
  show ?thesis
    using iterators_do_not_share_cursor[OF a b] st ns f
    by (metis nth_Cons_0 nth_Cons_Suc One_nat_def)
qed

text \<open>As C8 is stated, for every iterable, it fails for a page fetcher with a state of its
  own, such as a stub that hands out its pages in turn: the two iterators share the
  fetcher, and after a call on the first the second is given page 2, where alone it is
  given page 1.\<close>

theorem stateful_fetcher_couples_iterators_counterexample:
  "observed 1 (fst (interleave [0, 1]
       [asyncIterator \<lparr>nextPage = stub [Inr (envelope [JNum 1] JNull), Inr (envelope [JNum 2] JNull)],
                       config = default_config\<rparr>,
        asyncIterator \<lparr>nextPage = stub [Inr (envelope [JNum 1] JNull), Inr (envelope [JNum 2] JNull)],
                       config = default_config\<rparr>] 0))
     = [(Inr \<lparr>ir_value = Plain (JArr [JNum 2]), ir_done = False\<rparr>, Some (Plain JNull))]
   \<and> observed 1 (fst (interleave [1]
       [asyncIterator \<lparr>nextPage = stub [Inr (envelope [JNum 1] JNull), Inr (envelope [JNum 2] JNull)],
                       config = default_config\<rparr>,
        asyncIterator \<lparr>nextPage = stub [Inr (envelope [JNum 1] JNull), Inr (envelope [JNum 2] JNull)],
                       config = default_config\<rparr>] 0))
     = [(Inr \<lparr>ir_value = Plain (JArr [JNum 1]), ir_done = False\<rparr>, Some (Plain JNull))]
   \<and> observed 1 (fst (interleave [0, 1]
       [asyncIterator \<lparr>nextPage = stub [Inr (envelope [JNum 1] JNull), Inr (envelope [JNum 2] JNull)],
                       config = default_config\<rparr>,
        asyncIterator \<lparr>nextPage = stub [Inr (envelope [JNum 1] JNull), Inr (envelope [JNum 2] JNull)],
                       config = default_config\<rparr>] 0))
     \<noteq> observed 1 (fst (interleave (filter (\<lambda>x. x = 1) [0, 1])
       [asyncIterator \<lparr>nextPage = stub [Inr (envelope [JNum 1] JNull), Inr (envelope [JNum 2] JNull)],
                       config = default_config\<rparr>,
        asyncIterator \<lparr>nextPage = stub [Inr (envelope [JNum 1] JNull), Inr (envelope [JNum 2] JNull)],
                       config = default_config\<rparr>] 0))"
  by (simp add: observed_def next_ref_def PaginatedIterator_next_def asyncIterator_def stub_def
      default_config_def envelope_def PaginatedIteratorConfig.truncate_def Let_def Object_prototype_def)

text \<open>
  C9. Over the pages \<open>ps\<close> followed by an empty page, \<open>flatMapNotNull\<close> without a limit returns
  exactly the truthy mapped values, in order, and \<open>all()\<close> exactly the truthy elements; the
  falsy values are \<open>undefined\<close>, \<open>null\<close>, \<open>false\<close>, \<open>0\<close> and the empty string.
\<close>

theorem flatMapNotNull_keeps_truthy_only:
  assumes "yields (asyncIterator this) w ps = Some (it1, w1)"
    and "PaginatedIterator_next it1 w1 = (Inr r, it2, w2)"
    and "ir_done r"
    and "\<forall>x\<in>set (concat ps). \<forall>w. mapper x w = (Inr (m x), w)"
  shows "flatMapNotNull this mapper None w = Some (Inr (filter truthy (map m (concat ps))), w2)
       \<and> all_pages this w = Some (Inr (filter truthy (concat ps)), w2)
       \<and> (\<forall>v. truthy v = (v \<notin> {JUndefined, JNull, JBool False, JNum 0, JStr []}))"
  using flatMapNotNull_exhausted[OF assms, of None] all_pages_exhausted[OF assms(1,2,3)] truthy_iff
  by (simp add: limit_reached_def)

theorem flatMapNotNull_keeps_truthy_only_witness:
  "flatMapNotNull
     \<lparr>nextPage = stub [Inr (envelope [JNum 0, JStr [], JNum 5, JNull, JBool False, JUndefined, JStr (ascii ''x'')] JNull),
                       Inr (envelope [] JNull)],
      config = default_config\<rparr> (\<lambda>it. Promise_resolve it) None 0
     = Some (Inr [JNum 5, JStr (ascii ''x'')], 2)
   \<and> all_pages
     \<lparr>nextPage = stub [Inr (envelope [JNum 0, JStr [], JNum 5, JNull, JBool False, JUndefined, JStr (ascii ''x'')] JNull),
                       Inr (envelope [] JNull)],
      config = default_config\<rparr> 0
     = Some (Inr [JNum 5, JStr (ascii ''x'')], 2)"
proof -
  let ?page = "[JNum 0, JStr [], JNum 5, JNull, JBool False, JUndefined, JStr (ascii ''x'')]"
  let ?P = "\<lparr>nextPage = stub [Inr (envelope ?page JNull), Inr (envelope [] JNull)],
             config = default_config\<rparr>"
  let ?mapper = "(\<lambda>it. Promise_resolve it) :: jsval \<Rightarrow> (nat, jsval) async"
  have y: "yields (asyncIterator ?P) 0 [?page] = Some ((asyncIterator ?P)\<lparr>nextQuery := Plain JNull\<rparr>, 1)"
    by (simp add: PaginatedIterator_next_def asyncIterator_def stub_def default_config_def
        envelope_def PaginatedIteratorConfig.truncate_def Let_def Object_prototype_def)
  have n: "PaginatedIterator_next ((asyncIterator ?P)\<lparr>nextQuery := Plain JNull\<rparr>) 1
             = (Inr \<lparr>ir_value = Plain (JArr []), ir_done = True\<rparr>, (asyncIterator ?P)\<lparr>nextQuery := Plain JNull\<rparr>, 2)"
    by (simp add: PaginatedIterator_next_def asyncIterator_def stub_def default_config_def
        envelope_def PaginatedIteratorConfig.truncate_def Let_def Object_prototype_def)
  have m: "\<forall>x\<in>set (concat [?page]). \<forall>w. ?mapper x w = (Inr ((\<lambda>x. x) x), w)"
    by (simp add: Promise_resolve_def)
  show ?thesis
    using flatMapNotNull_keeps_truthy_only[OF y n _ m] by simp
qed

text \<open>
  C10. With the limit \<open>0\<close> the limit check never fires, whatever has been accumulated:
  over the pages \<open>ps\<close> followed by an empty page, \<open>flatMapNotNull\<close> with the limit \<open>0\<close> goes
  through every page, one fetch each and one for the empty page, and returns every kept
  (truthy) mapped value, in order. For every iterable, mapper and world it is
  \<open>flatMapNotNull\<close> without a limit, as a result and as a run.
\<close>

theorem flatMapNotNull_limit_zero_is_no_limit:
  assumes "yields (asyncIterator \<lparr>nextPage = logged f, config = cfg\<rparr>) (w, []) ps = Some (it1, wl1)"
    and "PaginatedIterator_next it1 wl1 = (Inr r, it2, (w2, calls))"
    and "ir_done r"
    and "\<forall>x\<in>set (concat ps). \<forall>w. mapper x w = (Inr (m x), w)"
  shows "flatMapNotNull \<lparr>nextPage = logged f, config = cfg\<rparr> mapper (Some 0) (w, [])
           = Some (Inr (filter truthy (map m (concat ps))), (w2, calls))
       \<and> length calls = length ps + 1
       \<and> flatMapNotNull other mapper' (Some 0) w' = flatMapNotNull other mapper' None w'
       \<and> \<not> limit_reached (Some 0) result"
proof -
  have nr: "\<not> limit_reached (Some 0) (filter truthy (map m (concat ps)))"
    by (simp add: limit_reached_def)
  have "flatMapNotNull_body mapper' (Some 0) = flatMapNotNull_body mapper' None"
    by (intro ext) (simp add: flatMapNotNull_body_def page_limit_zero split: sum.splits)
  then have e: "flatMapNotNull other mapper' (Some 0) w' = flatMapNotNull other mapper' None w'"
    by (simp add: flatMapNotNull_def)
  show ?thesis
    using flatMapNotNull_exhausted[OF assms nr] logged_call_count[OF assms(1,2)] e
    by (simp add: limit_reached_def)
qed

theorem flatMapNotNull_limit_zero_is_no_limit_witness:
  "flatMapNotNull \<lparr>nextPage = logged (stub [Inr (envelope [JNum 1, JNum 0, JNum 2] (JStr (ascii ''c1''))),
                                            Inr (envelope [JNum 3] JNull), Inr (envelope [] JNull)]),
                   config = default_config\<rparr> (\<lambda>it. Promise_resolve it) (Some 0) (0, [])
     = Some (Inr [JNum 1, JNum 2, JNum 3],
             (3, [Plain JUndefined, Plain (JStr (ascii ''c1'')), Plain JNull]))
   \<and> flatMapNotNull \<lparr>nextPage = logged (stub [Inr (envelope [JNum 1, JNum 0, JNum 2] (JStr (ascii ''c1''))),
                                            Inr (envelope [JNum 3] JNull), Inr (envelope [] JNull)]),
                   config = default_config\<rparr> (\<lambda>it. Promise_resolve it) None (0, [])
     = Some (Inr [JNum 1, JNum 2, JNum 3],
             (3, [Plain JUndefined, Plain (JStr (ascii ''c1'')), Plain JNull]))"
proof -
  let ?f = "stub [Inr (envelope [JNum 1, JNum 0, JNum 2] (JStr (ascii ''c1''))),
                  Inr (envelope [JNum 3] JNull), Inr (envelope [] JNull)]"
  let ?P = "\<lparr>nextPage = logged ?f, config = default_config\<rparr>"
  let ?it = "asyncIterator ?P"
  let ?mapper = "(\<lambda>it. Promise_resolve it) :: jsval \<Rightarrow> (nat \<times> property list, jsval) async"
  have y: "yields ?it (0, []) [[JNum 1, JNum 0, JNum 2], [JNum 3]]
             = Some (?it\<lparr>nextQuery := Plain JNull\<rparr>, (2, [Plain JUndefined, Plain (JStr (ascii ''c1''))]))"
    by (simp add: PaginatedIterator_next_def asyncIterator_def logged_def stub_def
        default_config_def envelope_def PaginatedIteratorConfig.truncate_def Let_def Object_prototype_def)
  have n: "PaginatedIterator_next (?it\<lparr>nextQuery := Plain JNull\<rparr>) (2, [Plain JUndefined, Plain (JStr (ascii ''c1''))])
             = (Inr \<lparr>ir_value = Plain (JArr []), ir_done = True\<rparr>, ?it\<lparr>nextQuery := Plain JNull\<rparr>,
                (3, [Plain JUndefined, Plain (JStr (ascii ''c1'')), Plain JNull]))"
    by (simp add: PaginatedIterator_next_def asyncIterator_def logged_def stub_def
        default_config_def envelope_def PaginatedIteratorConfig.truncate_def Let_def Object_prototype_def)
  have m: "\<forall>x\<in>set (concat [[JNum 1, JNum 0, JNum 2], [JNum 3]]).
             \<forall>w :: nat \<times> property list. ?mapper x w = (Inr ((\<lambda>x. x) x), w)"
    by (simp add: Promise_resolve_def)
  have dn: "ir_done \<lparr>ir_value = Plain (JArr []), ir_done = True\<rparr>" by simp
  note t = flatMapNotNull_limit_zero_is_no_limit[OF y n dn m, where other = ?P and mapper' = ?mapper
        and w' = "(0, [])" and result = "[]"]
  show ?thesis
    using t[THEN conjunct1] t[THEN conjunct2, THEN conjunct2, THEN conjunct1, symmetric]
    by simp
qed

end
